theory Spec2Isabelle
  imports Main
begin

section \<open>Values of the builder endpoint\<close>

text \<open>
  The endpoint \<open>builderAction\<close> (the route \<open>api.builder\<close>) receives one request and
  runs up to three stages (builder call, chat summary, text generation) inside the
  \<open>execute\<close> callback of a data stream. The callback writes its progress records and
  annotations to that data stream (\<open>writeData\<close>, \<open>writeMessageAnnotation\<close>); the
  body of the response is the readable side of a \<open>SwitchableStream\<close>, which the
  callback switches to the generated text.

  All of it is kept in an explicit state record: the parts written to the data stream, the
  log, the calls made to the collaborators, the usage totals, the counter and the
  switchable stream. What the collaborators answer is the environment \<open>env\<close>. The
  model follows one request until its generator has delivered everything.
\<close>

text \<open>A thrown JavaScript value: an \<open>Error\<close> with its message, or any other value.\<close>

datatype thrown = ErrorObj string | NonError

text \<open>\<open>error instanceof Error ? error.message : 'Unknown error'\<close>\<close>

fun errorMessage :: "thrown \<Rightarrow> string" where
  "errorMessage (ErrorObj m) = m"
| "errorMessage NonError = ''Unknown error''"

text \<open>
  A message of the conversation; \<open>msg_id\<close> is its property \<open>id\<close>, \<open>None\<close> when the
  message has none.
\<close>

record message =
  role :: string
  content :: string
  msg_id :: "string option"

text \<open>
  The builder configuration. A \<open>backendUrl\<close> that is missing is the empty string here:
  both are falsy in the test of line 109. \<open>options\<close> is kept as JSON text.
\<close>

record builder_config =
  backendUrl :: string
  apiKey :: "string option"
  options :: "string option"

text \<open>
  The parsed request body. \<open>messages\<close> is an array of messages, or a value on which
  \<open>messages.reduce\<close> raises a TypeError with the given text (the property is missing
  or is not an array). \<open>files\<close> is the file map, \<open>None\<close> when the property is absent.
\<close>

datatype messages_value = NotAnArray string | MessagesArray "message list"

record request_body =
  messages :: messages_value
  files :: "(string \<times> string) list option"
  promptId :: "string option"
  contextOptimization :: bool
  builderConfig :: "builder_config option"

text \<open>
  A usage report of a stage (\<open>completionTokens\<close>, \<open>promptTokens\<close>, \<open>totalTokens\<close>);
  each counter may be missing. Token counts are integers.
\<close>

datatype usage_report = UsageReport "int option" "int option" "int option"

record usage_totals =
  completionTokens :: int
  promptTokens :: int
  totalTokens :: int

record progress_annotation =
  label :: string
  status :: string
  order :: nat
  message :: string

text \<open>
  The message annotations by their \<open>type\<close>: \<open>contextData\<close> with \<open>summary\<close> and
  \<open>chatId\<close> (the builder result), \<open>chatSummary\<close> with \<open>summary\<close> and a \<open>chatId\<close>
  that may be undefined, and \<open>usage\<close> with the totals.
\<close>

datatype annotation =
    ContextData string string
  | ChatSummary string "string option"
  | UsageAnnotation usage_totals

text \<open>
  A part of the generator's \<open>fullStream\<close>: \<open>part_text\<close> (the property \<open>text\<close>) and
  \<open>textDelta\<close> are \<open>Some\<close> exactly when the property is present and a string.
\<close>

record part =
  part_text :: "string option"
  textDelta :: "string option"

text \<open>
  What reaches the data stream: a record written by \<open>writeData\<close>, one written by
  \<open>writeMessageAnnotation\<close>, a part of the generator merged by
  \<open>mergeIntoDataStream\<close>, or the error part written when \<open>execute\<close> rejects.
\<close>

datatype data_part =
    Data progress_annotation
  | MessageAnnotation annotation
  | Merged part
  | ErrorPart thrown

text \<open>
  The log lines of the endpoint: a fixed debug text, the word count of line 91, the
  message count of line 176, a usage with its caption, an error with its caption.
\<close>

datatype log_entry =
    LogDebug string
  | LogTotalLength nat
  | LogMessagesCount nat
  | LogUsage string "usage_report option"
  | LogError string thrown

text \<open>
  The calls to the collaborators, with the arguments that depend on the request: the
  \<open>fetch\<close> of the builder (URL, headers, messages, builder options), \<open>createSummary\<close>
  (messages, prompt id, context optimisation) and \<open>streamText\<close>.
\<close>

record stream_text_args =
  st_messages :: "message list"
  st_files :: "(string \<times> string) list option"
  st_promptId :: "string option"
  st_contextOptimization :: bool
  st_contextFiles :: "(string \<times> string) list option"
  st_summary :: "string option"
  st_messageSliceId :: nat

datatype call =
    FetchCall string "(string \<times> string) list" "message list" string
  | CreateSummaryCall "message list" "string option" bool
  | StreamTextCall stream_text_args

section \<open>The switchable output stream\<close>

text \<open>
  Modelled from the spec: the class \<open>SwitchableStream\<close>
  (\<open>~/lib/.server/llm/switchable-stream\<close>) is imported and used by the endpoint, but its
  file is not among the sources. The spec (4.1) gives it an output handle that a consumer
  reads and at most one active source at a time. Here \<open>readable\<close> is what has been
  forwarded to the output so far, and a source is the list of chunks it still has to
  produce together with the way it ends.
\<close>

datatype source_end = EndOfData | SourceError thrown

datatype 'a source = Source "'a list" source_end

datatype stream_status = IsOpen | IsClosed | IsErrored thrown

record 'a switchable_stream =
  readable :: "'a list"
  active :: "'a source option"
  stream_status :: stream_status

text \<open>
  Modelled from the spec: \<open>create()\<close> of the missing class; an open output with nothing
  forwarded and no source.
\<close>

definition create :: "'a switchable_stream" where
  "create = \<lparr>readable = [], active = None, stream_status = IsOpen\<rparr>"

text \<open>
  Modelled from the spec: \<open>switchSource(newSource)\<close> of the missing class. It redirects
  all subsequent forwarding to the new source; no further read is issued against the
  previous one; what was forwarded before stays in the output. The spec speaks of a
  stream that is in use, so a stream that has ended is left as it is.
\<close>

definition switchSource :: "'a source \<Rightarrow> 'a switchable_stream \<Rightarrow> 'a switchable_stream" where
  "switchSource newSource s =
     (if stream_status s = IsOpen then s\<lparr>active := Some newSource\<rparr> else s)"

text \<open>
  Modelled from the spec: one read of the active source by the missing class. A chunk is
  forwarded to the output; the end of the active source ends the output; an error of the
  active source becomes the error of the output.
\<close>

definition pump :: "'a switchable_stream \<Rightarrow> 'a switchable_stream" where
  "pump s =
     (if stream_status s = IsOpen then
        (case active s of
           None \<Rightarrow> s
         | Some (Source [] EndOfData) \<Rightarrow>
             s\<lparr>active := None, stream_status := IsClosed\<rparr>
         | Some (Source [] (SourceError e)) \<Rightarrow>
             s\<lparr>active := None, stream_status := IsErrored e\<rparr>
         | Some (Source (x # xs) e) \<Rightarrow>
             s\<lparr>readable := readable s @ [x], active := Some (Source xs e)\<rparr>)
      else s)"

text \<open>Modelled from the spec: \<open>close()\<close> of the missing class, which is idempotent.\<close>

definition close :: "'a switchable_stream \<Rightarrow> 'a switchable_stream" where
  "close s =
     (if stream_status s = IsOpen then s\<lparr>active := None, stream_status := IsClosed\<rparr> else s)"

text \<open>
  Modelled from the spec: the missing class reading its active source until that has
  ended, one read per chunk and one for the end.
\<close>

definition remaining :: "'a switchable_stream \<Rightarrow> nat" where
  "remaining s = (case active s of None \<Rightarrow> 0 | Some (Source xs e) \<Rightarrow> Suc (length xs))"

definition drain :: "'a switchable_stream \<Rightarrow> 'a switchable_stream" where
  "drain s = (pump ^^ remaining s) s"

section \<open>The state of one request\<close>

record exec_state =
  cumulativeUsage :: usage_totals
  progressCounter :: nat
  dataStream :: "data_part list"
  logs :: "log_entry list"
  calls :: "call list"
  lastChunk :: "string option"
  stream :: "string switchable_stream"

text \<open>The variables as \<open>builderAction\<close> initialises them before its \<open>try\<close>.\<close>

definition initial_state :: exec_state where
  "initial_state =
     \<lparr>cumulativeUsage = \<lparr>completionTokens = 0, promptTokens = 0, totalTokens = 0\<rparr>,
      progressCounter = 1,
      dataStream = [],
      logs = [],
      calls = [],
      lastChunk = None,
      stream = create\<rparr>"

definition writeData :: "progress_annotation \<Rightarrow> exec_state \<Rightarrow> exec_state" where
  "writeData p s = s\<lparr>dataStream := dataStream s @ [Data p]\<rparr>"

definition writeMessageAnnotation :: "annotation \<Rightarrow> exec_state \<Rightarrow> exec_state" where
  "writeMessageAnnotation a s = s\<lparr>dataStream := dataStream s @ [MessageAnnotation a]\<rparr>"

definition logger :: "log_entry \<Rightarrow> exec_state \<Rightarrow> exec_state" where
  "logger e s = s\<lparr>logs := logs s @ [e]\<rparr>"

definition recordCall :: "call \<Rightarrow> exec_state \<Rightarrow> exec_state" where
  "recordCall c s = s\<lparr>calls := calls s @ [c]\<rparr>"

text \<open>
  \<open>writeData({type: 'progress', label, status, order: progressCounter++, message})\<close>:
  the record takes the current counter, and the counter is advanced.
\<close>

definition writeProgress :: "string \<Rightarrow> string \<Rightarrow> string \<Rightarrow> exec_state \<Rightarrow> exec_state" where
  "writeProgress l st m s =
     writeData \<lparr>label = l, status = st, order = progressCounter s, message = m\<rparr>
       (s\<lparr>progressCounter := progressCounter s + 1\<rparr>)"

text \<open>
  \<open>x || 0\<close> on a counter (a missing counter gives 0, and 0 stays 0) and \<open>x || ''\<close>
  on a string.
\<close>

fun orZero :: "int option \<Rightarrow> int" where
  "orZero None = 0"
| "orZero (Some n) = n"

fun orEmpty :: "string option \<Rightarrow> string" where
  "orEmpty None = []"
| "orEmpty (Some s) = s"

text \<open>The three \<open>+=\<close> on \<open>cumulativeUsage\<close>.\<close>

fun addUsage :: "usage_report \<Rightarrow> usage_totals \<Rightarrow> usage_totals" where
  "addUsage (UsageReport c p t) u =
     \<lparr>completionTokens = completionTokens u + orZero c,
      promptTokens = promptTokens u + orZero p,
      totalTokens = totalTokens u + orZero t\<rparr>"

text \<open>\<open>messages.slice(-1)?.[0]?.id\<close>: the id of the last message, if there is one.\<close>

fun lastMessageId :: "message list \<Rightarrow> string option" where
  "lastMessageId [] = None"
| "lastMessageId (m # ms) = msg_id (last (m # ms))"

text \<open>Lines 102 to 106.\<close>

definition messageSliceId :: "message list \<Rightarrow> nat" where
  "messageSliceId ms = (if length ms > 3 then length ms - 3 else 0)"

section \<open>The collaborators\<close>

text \<open>
  What the outside answers during one request. None of these is code of the endpoint.
  \<^item> \<open>getFilePaths\<close> (\<open>~/lib/.server/llm/select-context\<close>, not among the sources) is a
    parameter.
  \<^item> \<open>fetchOutcome\<close>: \<open>fetch\<close> rejects, or resolves to a response with its \<open>ok\<close> flag,
    its status and what \<open>response.json()\<close> gives (kept as the text
    \<open>JSON.stringify\<close> makes of it).
  \<^item> \<open>summaryOutcome\<close>: the \<open>resp.usage\<close> of every call \<open>createSummary\<close> makes to its
    \<open>onFinish\<close>, then the summary it returns or the value it throws.
  \<^item> \<open>genOutcome\<close>: \<open>streamText\<close> rejects, or gives a result: the parts of
    \<open>fullStream\<close>, the error that ends \<open>fullStream\<close> if one does, the terminal
    finish notification (finish reason and usage) if the generator gets that far, and
    how many parts \<open>mergeIntoDataStream\<close> has forwarded when that notification runs.
\<close>

datatype json_outcome = JsonOk string | JsonThrows thrown

datatype fetch_outcome = FetchThrows thrown | FetchResponse bool nat json_outcome

datatype summary_outcome = SummaryOutcome "usage_report option list" "thrown + string"

datatype finish_event = FinishEvent string "usage_report option"

datatype gen_outcome =
    StreamTextThrows thrown
  | StreamTextResult "part list" "thrown option" "finish_event option" nat

record env =
  getFilePaths :: "(string \<times> string) list \<Rightarrow> string list"
  fetchOutcome :: fetch_outcome
  summaryOutcome :: summary_outcome
  genOutcome :: gen_outcome

section \<open>The builder stage (lines 109 to 163)\<close>

text \<open>The decimal text of a number, as a template literal renders the status.\<close>

fun decimal :: "nat \<Rightarrow> string" where
  "decimal n =
     (if n < 10 then [''0123456789'' ! n]
      else decimal (n div 10) @ [''0123456789'' ! (n mod 10)])"

declare decimal.simps [simp del]

text \<open>
  The request to the builder server, ending with \<open>response.json()\<close>: the value the
  \<open>try\<close> block throws, or the builder data.
\<close>

fun builderResponse :: "fetch_outcome \<Rightarrow> thrown + string" where
  "builderResponse (FetchThrows e) = Inl e"
| "builderResponse (FetchResponse ok st j) =
     (if \<not> ok then Inl (ErrorObj (''Builder server returned status '' @ decimal st))
      else (case j of JsonThrows e \<Rightarrow> Inl e | JsonOk builderData \<Rightarrow> Inr builderData))"

definition fetchCall :: "builder_config \<Rightarrow> message list \<Rightarrow> call" where
  "fetchCall bc ms =
     FetchCall (backendUrl bc)
       ((''Content-Type'', ''application/json'') #
        (case apiKey bc of
           None \<Rightarrow> []
         | Some k \<Rightarrow> if k = [] then [] else [(''Authorization'', ''Bearer '' @ k)]))
       ms
       (case options bc of None \<Rightarrow> ''{}'' | Some j \<Rightarrow> j)"

definition builderStage :: "message list \<Rightarrow> request_body \<Rightarrow> env \<Rightarrow> exec_state \<Rightarrow> exec_state" where
  "builderStage ms req ev s =
     (case builderConfig req of
        None \<Rightarrow> s
      | Some bc \<Rightarrow>
          if backendUrl bc = [] then s
          else
            let s1 = writeProgress ''builder'' ''in-progress'' ''Connecting to builder server''
                       (logger (LogDebug ''Calling backend builder server'') s);
                s2 = recordCall (fetchCall bc ms) s1
            in (case builderResponse (fetchOutcome ev) of
                  Inr builderData \<Rightarrow>
                    writeProgress ''builder'' ''complete'' ''Builder server processing complete''
                      (writeMessageAnnotation
                         (ContextData builderData (orEmpty (lastMessageId ms))) s2)
                | Inl error \<Rightarrow>
                    writeProgress ''builder'' ''in-progress''
                      (''Builder server error: '' @ errorMessage error)
                      (logger (LogError ''Error calling builder server'' error) s2)))"

section \<open>The summary stage (lines 165 to 212)\<close>

text \<open>The \<open>onFinish\<close> handed to \<open>createSummary\<close>, applied to \<open>resp.usage\<close>.\<close>

fun summaryOnFinish :: "usage_report option \<Rightarrow> exec_state \<Rightarrow> exec_state" where
  "summaryOnFinish None s = s"
| "summaryOnFinish (Some u) s =
     (let s1 = logger (LogUsage ''createSummary token usage'' (Some u)) s
      in s1\<lparr>cumulativeUsage := addUsage u (cumulativeUsage s1)\<rparr>)"

text \<open>
  The stage gives the summary (\<open>None\<close> when it is skipped) and the new state, or the
  value \<open>createSummary\<close> threw: nothing catches it inside \<open>execute\<close>.
\<close>

definition summaryStage ::
  "message list \<Rightarrow> request_body \<Rightarrow> env \<Rightarrow> exec_state
     \<Rightarrow> (thrown \<times> exec_state) + (string option \<times> exec_state)" where
  "summaryStage ms req ev s =
     (let filePaths = getFilePaths ev (case files req of None \<Rightarrow> [] | Some f \<Rightarrow> f)
      in if length filePaths > 0 \<and> contextOptimization req then
           let s1 = writeProgress ''summary'' ''in-progress'' ''Analysing Request''
                      (logger (LogDebug ''Generating Chat Summary'') s);
               s2 = logger (LogMessagesCount (length ms)) s1;
               s3 = recordCall (CreateSummaryCall ms (promptId req) (contextOptimization req)) s2
           in (case summaryOutcome ev of
                 SummaryOutcome resps res \<Rightarrow>
                   let s4 = fold summaryOnFinish resps s3
                   in (case res of
                         Inl e \<Rightarrow> Inl (e, s4)
                       | Inr summary \<Rightarrow>
                           Inr (Some summary,
                                writeMessageAnnotation (ChatSummary summary (lastMessageId ms))
                                  (writeProgress ''summary'' ''complete'' ''Analysis Complete'' s4))))
         else Inr (None, s))"

section \<open>The generation stage (lines 214 to 308)\<close>

text \<open>The \<open>onFinish\<close> of the streaming options (lines 217 to 248).\<close>

fun onFinish :: "finish_event \<Rightarrow> exec_state \<Rightarrow> exec_state" where
  "onFinish (FinishEvent finishReason usage) s =
     (let s1 = logger (LogUsage ''usage'' usage) s;
          s2 = (case usage of
                  None \<Rightarrow> s1
                | Some u \<Rightarrow> s1\<lparr>cumulativeUsage := addUsage u (cumulativeUsage s1)\<rparr>)
      in if finishReason \<noteq> ''length'' then
           writeProgress ''response'' ''complete'' ''Response Generated''
             (writeMessageAnnotation (UsageAnnotation (cumulativeUsage s2)) s2)
         else s2)"

declare onFinish.simps [simp del]

text \<open>
  The text stream (lines 276 to 305): the chunk of a part is its \<open>text\<close>, else its
  \<open>textDelta\<close>, else empty; only non-empty chunks are enqueued; the stream is closed
  after the last part, or errors with what \<open>fullStream\<close> threw. A chunk stands for the
  bytes \<open>encoder.encode\<close> makes of it.
\<close>

definition chunkOf :: "part \<Rightarrow> string" where
  "chunkOf p =
     (case part_text p of
        Some t \<Rightarrow> t
      | None \<Rightarrow> (case textDelta p of Some d \<Rightarrow> d | None \<Rightarrow> []))"

definition textChunks :: "part list \<Rightarrow> string list" where
  "textChunks ps = filter (\<lambda>chunk. chunk \<noteq> []) (map chunkOf ps)"

definition textStream :: "part list \<Rightarrow> thrown option \<Rightarrow> string source" where
  "textStream ps err =
     Source (textChunks ps) (case err of None \<Rightarrow> EndOfData | Some e \<Rightarrow> SourceError e)"

definition mergeIntoDataStream :: "part list \<Rightarrow> exec_state \<Rightarrow> exec_state" where
  "mergeIntoDataStream ps s = s\<lparr>dataStream := dataStream s @ map Merged ps\<rparr>"

definition streamTextArgs :: "message list \<Rightarrow> request_body \<Rightarrow> string option \<Rightarrow> stream_text_args" where
  "streamTextArgs ms req summary =
     \<lparr>st_messages = ms,
      st_files = files req,
      st_promptId = promptId req,
      st_contextOptimization = contextOptimization req,
      st_contextFiles = None,
      st_summary = summary,
      st_messageSliceId = messageSliceId ms\<rparr>"

text \<open>
  The stage up to the end of the generator's work: the progress record, the call, and
  then, when \<open>streamText\<close> gives a result, the switch of the output stream to the text
  stream, which is read to its end, and the finish notification among the merged parts.
\<close>

definition generationStage ::
  "message list \<Rightarrow> request_body \<Rightarrow> env \<Rightarrow> string option \<Rightarrow> exec_state
     \<Rightarrow> (thrown \<times> exec_state) + exec_state" where
  "generationStage ms req ev summary s =
     (let s1 = writeProgress ''response'' ''in-progress'' ''Generating Response'' s;
          s2 = recordCall (StreamTextCall (streamTextArgs ms req summary)) s1
      in (case genOutcome ev of
            StreamTextThrows e \<Rightarrow> Inl (e, s2)
          | StreamTextResult ps err fin k \<Rightarrow>
              let s3 = s2\<lparr>stream := drain (switchSource (textStream ps err) (stream s2)),
                          lastChunk := (if textChunks ps = [] then lastChunk s2
                                        else Some (last (textChunks ps)))\<rparr>;
                  s4 = mergeIntoDataStream (take k ps) s3;
                  s5 = (case fin of None \<Rightarrow> s4 | Some f \<Rightarrow> onFinish f s4)
              in Inr (mergeIntoDataStream (drop k ps) s5)))"

section \<open>The callback \<open>execute\<close> and the endpoint\<close>

text \<open>
  \<open>execute\<close> runs the three stages in order. When it rejects, the data stream gets an
  error part and the rest of the callback does not run.
\<close>

definition execute :: "message list \<Rightarrow> request_body \<Rightarrow> env \<Rightarrow> exec_state \<Rightarrow> exec_state" where
  "execute ms req ev s =
     (case summaryStage ms req ev (builderStage ms req ev s) of
        Inl (e, s1) \<Rightarrow> s1\<lparr>dataStream := dataStream s1 @ [ErrorPart e]\<rparr>
      | Inr (summary, s1) \<Rightarrow>
          (case generationStage ms req ev summary s1 of
             Inl (e, s2) \<Rightarrow> s2\<lparr>dataStream := dataStream s2 @ [ErrorPart e]\<rparr>
           | Inr s2 \<Rightarrow> s2))"

text \<open>
  The request: what \<open>request.json()\<close> gives (it rejects on a body that is not JSON), and
  what \<open>JSON.parse\<close> makes of the two cookies (lines 73 to 77), each of which can throw.
\<close>

datatype body_parse = InvalidJson thrown | ParsedBody request_body

record request =
  body :: body_parse
  apiKeysCookie :: "thrown + string"
  providersCookie :: "thrown + string"

datatype response =
    StreamResponse "(string \<times> string) list"
  | JsonResponse nat "(string \<times> string) list" string

text \<open>
  The endpoint returns a response, or rejects with a value nothing in it has caught.
  \<open>StreamResponse\<close> has the readable side of the switchable stream as its body (status
  200), \<open>JsonResponse status headers e\<close> has the body \<open>{ error: e }\<close>.
\<close>

datatype action_result = Uncaught thrown | Returned response exec_state

definition streamHeaders :: "(string \<times> string) list" where
  "streamHeaders =
     [(''Content-Type'', ''text/plain; charset=utf-8''),
      (''Transfer-Encoding'', ''chunked''),
      (''X-Content-Type-Options'', ''nosniff'')]"

definition totalMessageContent :: "message list \<Rightarrow> string" where
  "totalMessageContent ms = foldl (\<lambda>acc m. acc @ content m) [] ms"

definition wordCount :: "string \<Rightarrow> nat" where
  "wordCount t = Suc (length (filter (\<lambda>c. c = CHR '' '') t))"

text \<open>The state in which the data stream calls \<open>execute\<close>: line 91 has logged.\<close>

definition startState :: "message list \<Rightarrow> exec_state" where
  "startState ms = logger (LogTotalLength (wordCount (totalMessageContent ms))) initial_state"

definition builderAction :: "request \<Rightarrow> env \<Rightarrow> action_result" where
  "builderAction rq ev =
     (case body rq of
        InvalidJson e \<Rightarrow> Uncaught e
      | ParsedBody req \<Rightarrow>
          (case apiKeysCookie rq of
             Inl e \<Rightarrow> Uncaught e
           | Inr apiKeys \<Rightarrow>
               (case providersCookie rq of
                  Inl e \<Rightarrow> Uncaught e
                | Inr providerSettings \<Rightarrow>
                    (case messages req of
                       NotAnArray m \<Rightarrow>
                         Returned
                           (JsonResponse 500 [(''Content-Type'', ''application/json'')]
                              (errorMessage (ErrorObj m)))
                           (logger (LogError ''Error in builder endpoint'' (ErrorObj m))
                              initial_state)
                     | MessagesArray ms \<Rightarrow>
                         Returned
                           (StreamResponse streamHeaders)
                           (execute ms req ev (startState ms))))))"

section \<open>Observations on a run\<close>

text \<open>
  The guards of the two optional stages: the truthiness of \<open>builderConfig?.backendUrl\<close>
  (line 109; a missing URL and an empty one are both falsy, and both are the empty string
  here), and the test of line 165.
\<close>

definition builderConfigured :: "request_body \<Rightarrow> bool" where
  "builderConfigured req =
     (case builderConfig req of None \<Rightarrow> False | Some bc \<Rightarrow> backendUrl bc \<noteq> [])"

definition summaryRequested :: "request_body \<Rightarrow> env \<Rightarrow> bool" where
  "summaryRequested req ev =
     (length (getFilePaths ev (case files req of None \<Rightarrow> [] | Some f \<Rightarrow> f)) > 0
      \<and> contextOptimization req)"

text \<open>The \<open>order\<close> values of the progress records of a data stream, in the order written.\<close>

fun orderOf :: "data_part \<Rightarrow> nat list" where
  "orderOf (Data p) = [order p]"
| "orderOf (MessageAnnotation a) = []"
| "orderOf (Merged p) = []"
| "orderOf (ErrorPart e) = []"

definition progressOrders :: "data_part list \<Rightarrow> nat list" where
  "progressOrders ds = concat (map orderOf ds)"

text \<open>
  The invariant of the counter: the orders written so far are exactly the numbers below
  the counter, from 1.
\<close>

definition counted :: "exec_state \<Rightarrow> bool" where
  "counted s = (progressOrders (dataStream s) = [1..<progressCounter s] \<and> 0 < progressCounter s)"

text \<open>Adding one report, present or not, to the totals.\<close>

fun addReport :: "usage_report option \<Rightarrow> usage_totals \<Rightarrow> usage_totals" where
  "addReport None u = u"
| "addReport (Some r) u = addUsage r u"

text \<open>
  The usage reports of a request as the spec counts them, stage by stage: those of the
  summary stage when it runs, then the one of the generation stage's finish
  notification; a stage that does not run reports nothing. \<open>sumReports\<close> is their
  field-wise sum, an absent report or an absent counter counting as zero.
\<close>

definition summaryReports :: "request_body \<Rightarrow> env \<Rightarrow> usage_report option list" where
  "summaryReports req ev =
     (if summaryRequested req ev
      then (case summaryOutcome ev of SummaryOutcome rs res \<Rightarrow> rs)
      else [])"

definition generationReports :: "env \<Rightarrow> usage_report option list" where
  "generationReports ev =
     (case genOutcome ev of
        StreamTextThrows e \<Rightarrow> []
      | StreamTextResult ps err fin k \<Rightarrow>
          (case fin of None \<Rightarrow> [] | Some (FinishEvent reason u) \<Rightarrow> [u]))"

definition usageReports :: "request_body \<Rightarrow> env \<Rightarrow> usage_report option list" where
  "usageReports req ev = summaryReports req ev @ generationReports ev"

fun reportedCompletion :: "usage_report option \<Rightarrow> int" where
  "reportedCompletion None = 0"
| "reportedCompletion (Some (UsageReport c p t)) = (case c of None \<Rightarrow> 0 | Some n \<Rightarrow> n)"

fun reportedPrompt :: "usage_report option \<Rightarrow> int" where
  "reportedPrompt None = 0"
| "reportedPrompt (Some (UsageReport c p t)) = (case p of None \<Rightarrow> 0 | Some n \<Rightarrow> n)"

fun reportedTotal :: "usage_report option \<Rightarrow> int" where
  "reportedTotal None = 0"
| "reportedTotal (Some (UsageReport c p t)) = (case t of None \<Rightarrow> 0 | Some n \<Rightarrow> n)"

definition sumReports :: "usage_report option list \<Rightarrow> usage_totals" where
  "sumReports rs =
     \<lparr>completionTokens = sum_list (map reportedCompletion rs),
      promptTokens = sum_list (map reportedPrompt rs),
      totalTokens = sum_list (map reportedTotal rs)\<rparr>"

section \<open>Example requests\<close>

text \<open>
  Concrete requests and collaborators, on which the theorems below are instantiated:
  a conversation of the given message ids; a body with no builder, no files and no
  context optimisation, and one with all three; collaborators whose builder answers as
  given, whose summary reports a usage, and whose generator produces two parts and
  finishes with the given reason.
\<close>

definition example_message :: "string \<Rightarrow> message" where
  "example_message i = \<lparr>role = ''user'', content = ''build a page'', msg_id = Some i\<rparr>"

definition five_messages :: "message list" where
  "five_messages = map example_message [''m1'', ''m2'', ''m3'', ''m4'', ''m5'']"

definition plain_body :: "message list \<Rightarrow> request_body" where
  "plain_body ms =
     \<lparr>messages = MessagesArray ms, files = None, promptId = None,
      contextOptimization = False, builderConfig = None\<rparr>"

definition full_body :: "message list \<Rightarrow> request_body" where
  "full_body ms =
     \<lparr>messages = MessagesArray ms,
      files = Some [(''/home/project/index.html'', ''<html>'')],
      promptId = None,
      contextOptimization = True,
      builderConfig =
        Some \<lparr>backendUrl = ''http://builder'', apiKey = Some ''k'', options = None\<rparr>\<rparr>"

definition example_request :: "request_body \<Rightarrow> request" where
  "example_request b =
     \<lparr>body = ParsedBody b, apiKeysCookie = Inr ''{}'', providersCookie = Inr ''{}''\<rparr>"

definition example_env :: "fetch_outcome \<Rightarrow> string \<Rightarrow> env" where
  "example_env f reason =
     \<lparr>getFilePaths = map fst,
      fetchOutcome = f,
      summaryOutcome =
        SummaryOutcome [Some (UsageReport (Some 1) (Some 2) (Some 3))] (Inr ''summary''),
      genOutcome =
        StreamTextResult
          [\<lparr>part_text = None, textDelta = Some ''Hi''\<rparr>,
           \<lparr>part_text = None, textDelta = None\<rparr>]
          None
          (Some (FinishEvent reason (Some (UsageReport (Some 10) None (Some 30)))))
          2\<rparr>"

definition builder_down :: fetch_outcome where
  "builder_down = FetchResponse False 503 (JsonThrows NonError)"

definition builder_up :: fetch_outcome where
  "builder_up = FetchResponse True 200 (JsonOk ''{}'')"

section \<open>What the primitives change\<close>

lemmas prim_defs = writeData_def writeMessageAnnotation_def logger_def recordCall_def
  writeProgress_def mergeIntoDataStream_def

lemma cumulativeUsage_prims [simp]:
  "cumulativeUsage (writeData p s) = cumulativeUsage s"
  "cumulativeUsage (writeMessageAnnotation a s) = cumulativeUsage s"
  "cumulativeUsage (logger e s) = cumulativeUsage s"
  "cumulativeUsage (recordCall c s) = cumulativeUsage s"
  "cumulativeUsage (mergeIntoDataStream ps s) = cumulativeUsage s"
  "cumulativeUsage (writeProgress l st m s) = cumulativeUsage s"
  by (simp_all add: prim_defs)

lemma progressCounter_prims [simp]:
  "progressCounter (writeData p s) = progressCounter s"
  "progressCounter (writeMessageAnnotation a s) = progressCounter s"
  "progressCounter (logger e s) = progressCounter s"
  "progressCounter (recordCall c s) = progressCounter s"
  "progressCounter (mergeIntoDataStream ps s) = progressCounter s"
  "progressCounter (writeProgress l st m s) = Suc (progressCounter s)"
  by (simp_all add: prim_defs)

lemma dataStream_prims [simp]:
  "dataStream (writeData p s) = dataStream s @ [Data p]"
  "dataStream (writeMessageAnnotation a s) = dataStream s @ [MessageAnnotation a]"
  "dataStream (logger e s) = dataStream s"
  "dataStream (recordCall c s) = dataStream s"
  "dataStream (mergeIntoDataStream ps s) = dataStream s @ map Merged ps"
  "dataStream (writeProgress l st m s) =
     dataStream s @ [Data \<lparr>label = l, status = st, order = progressCounter s, message = m\<rparr>]"
  by (simp_all add: prim_defs)

lemma logs_prims [simp]:
  "logs (writeData p s) = logs s"
  "logs (writeMessageAnnotation a s) = logs s"
  "logs (logger e s) = logs s @ [e]"
  "logs (recordCall c s) = logs s"
  "logs (mergeIntoDataStream ps s) = logs s"
  "logs (writeProgress l st m s) = logs s"
  by (simp_all add: prim_defs)

lemma calls_prims [simp]:
  "calls (writeData p s) = calls s"
  "calls (writeMessageAnnotation a s) = calls s"
  "calls (logger e s) = calls s"
  "calls (recordCall c s) = calls s @ [c]"
  "calls (mergeIntoDataStream ps s) = calls s"
  "calls (writeProgress l st m s) = calls s"
  by (simp_all add: prim_defs)

lemma lastChunk_prims [simp]:
  "lastChunk (writeData p s) = lastChunk s"
  "lastChunk (writeMessageAnnotation a s) = lastChunk s"
  "lastChunk (logger e s) = lastChunk s"
  "lastChunk (recordCall c s) = lastChunk s"
  "lastChunk (mergeIntoDataStream ps s) = lastChunk s"
  "lastChunk (writeProgress l st m s) = lastChunk s"
  by (simp_all add: prim_defs)

lemma stream_prims [simp]:
  "stream (writeData p s) = stream s"
  "stream (writeMessageAnnotation a s) = stream s"
  "stream (logger e s) = stream s"
  "stream (recordCall c s) = stream s"
  "stream (mergeIntoDataStream ps s) = stream s"
  "stream (writeProgress l st m s) = stream s"
  by (simp_all add: prim_defs)

section \<open>What the callbacks change\<close>

lemma summaryOnFinish_fields [simp]:
  "dataStream (summaryOnFinish r s) = dataStream s"
  "progressCounter (summaryOnFinish r s) = progressCounter s"
  "calls (summaryOnFinish r s) = calls s"
  "stream (summaryOnFinish r s) = stream s"
  "cumulativeUsage (summaryOnFinish r s) = addReport r (cumulativeUsage s)"
  by (cases r; simp add: Let_def)+

lemma summaryOnFinish_logs: "\<exists>l. logs (summaryOnFinish r s) = logs s @ l"
  by (cases r) (simp_all add: Let_def)

lemma fold_summaryOnFinish_fields [simp]:
  "dataStream (fold summaryOnFinish rs s) = dataStream s"
  "progressCounter (fold summaryOnFinish rs s) = progressCounter s"
  "calls (fold summaryOnFinish rs s) = calls s"
  "stream (fold summaryOnFinish rs s) = stream s"
  "cumulativeUsage (fold summaryOnFinish rs s) = fold addReport rs (cumulativeUsage s)"
  by (induction rs arbitrary: s; simp)+

lemma fold_summaryOnFinish_logs: "\<exists>l. logs (fold summaryOnFinish rs s) = logs s @ l"
proof (induction rs arbitrary: s)
  case Nil
  show ?case by simp
next
  case (Cons r rs)
  obtain l1 where l1: "logs (summaryOnFinish r s) = logs s @ l1"
    using summaryOnFinish_logs by blast
  from Cons [of "summaryOnFinish r s"] obtain l2
    where "logs (fold summaryOnFinish rs (summaryOnFinish r s)) = logs (summaryOnFinish r s) @ l2"
    by blast
  with l1 show ?case by simp
qed

lemma onFinish_fields:
  "cumulativeUsage (onFinish (FinishEvent reason u) s) = addReport u (cumulativeUsage s)"
  "logs (onFinish (FinishEvent reason u) s) = logs s @ [LogUsage ''usage'' u]"
  "calls (onFinish (FinishEvent reason u) s) = calls s"
  "stream (onFinish (FinishEvent reason u) s) = stream s"
  "progressCounter (onFinish (FinishEvent reason u) s) =
     (if reason \<noteq> ''length'' then Suc (progressCounter s) else progressCounter s)"
  "dataStream (onFinish (FinishEvent reason u) s) =
     dataStream s @
     (if reason \<noteq> ''length''
      then [MessageAnnotation (UsageAnnotation (addReport u (cumulativeUsage s))),
            Data \<lparr>label = ''response'', status = ''complete'', order = progressCounter s,
                  message = ''Response Generated''\<rparr>]
      else [])"
  by (cases u; simp add: Let_def onFinish.simps)+

section \<open>The invariant of the counter\<close>

text \<open>
  Every write of a progress record takes the counter and advances it; nothing else writes a
  progress record or touches the counter. So \<open>counted\<close> holds after every stage.
\<close>

lemma progressOrders_append [simp]:
  "progressOrders (xs @ ys) = progressOrders xs @ progressOrders ys"
  by (simp add: progressOrders_def)

lemma progressOrders_Merged [simp]: "progressOrders (map Merged ps) = []"
  by (induction ps) (simp_all add: progressOrders_def)

lemma progressOrders_single [simp]:
  "progressOrders [Data p] = [order p]"
  "progressOrders [MessageAnnotation a] = []"
  "progressOrders [ErrorPart e] = []"
  "progressOrders [] = []"
  by (simp_all add: progressOrders_def)

lemma counted_initial: "counted initial_state"
  by (simp add: counted_def initial_state_def)

lemma counted_logger [simp]: "counted (logger e s) = counted s"
  by (simp add: counted_def logger_def)

lemma counted_recordCall [simp]: "counted (recordCall c s) = counted s"
  by (simp add: counted_def recordCall_def)

lemma counted_writeMessageAnnotation [simp]: "counted (writeMessageAnnotation a s) = counted s"
  by (simp add: counted_def writeMessageAnnotation_def)

lemma counted_mergeIntoDataStream [simp]: "counted (mergeIntoDataStream ps s) = counted s"
  by (simp add: counted_def mergeIntoDataStream_def)

lemma counted_writeProgress: "counted s \<Longrightarrow> counted (writeProgress l st m s)"
  by (auto simp: counted_def writeProgress_def writeData_def)

lemma counted_usage_update [simp]: "counted (s\<lparr>cumulativeUsage := u\<rparr>) = counted s"
  by (simp add: counted_def)

lemma counted_stream_update [simp]: "counted (s\<lparr>stream := t, lastChunk := c\<rparr>) = counted s"
  by (simp add: counted_def)

lemma counted_error_part: "counted s \<Longrightarrow> counted (s\<lparr>dataStream := dataStream s @ [ErrorPart e]\<rparr>)"
  by (simp add: counted_def)

lemma counted_builderStage: "counted s \<Longrightarrow> counted (builderStage ms req ev s)"
  by (simp add: builderStage_def Let_def counted_writeProgress split: option.splits sum.splits)

lemma counted_summaryOnFinish: "counted (summaryOnFinish r s) = counted s"
  by (cases r) (simp_all add: Let_def)

lemma counted_fold_summaryOnFinish: "counted (fold summaryOnFinish rs s) = counted s"
  by (induction rs arbitrary: s) (simp_all add: counted_summaryOnFinish)

lemma counted_summaryStage:
  "counted s \<Longrightarrow> summaryStage ms req ev s = Inl (e, s1) \<Longrightarrow> counted s1"
  "counted s \<Longrightarrow> summaryStage ms req ev s = Inr (sm, s2) \<Longrightarrow> counted s2"
  by (auto simp: summaryStage_def Let_def counted_writeProgress counted_fold_summaryOnFinish
      split: if_splits summary_outcome.splits sum.splits)

lemma counted_onFinish: "counted s \<Longrightarrow> counted (onFinish f s)"
  by (cases f) (auto simp: Let_def onFinish.simps counted_writeProgress split: option.splits)

lemma counted_generationStage:
  "counted s \<Longrightarrow> generationStage ms req ev sm s = Inl (e, s1) \<Longrightarrow> counted s1"
  "counted s \<Longrightarrow> generationStage ms req ev sm s = Inr s2 \<Longrightarrow> counted s2"
  by (auto simp: generationStage_def Let_def counted_writeProgress counted_onFinish
      split: gen_outcome.splits option.splits)

lemma counted_execute:
  assumes "counted s"
  shows "counted (execute ms req ev s)"
proof -
  have b: "counted (builderStage ms req ev s)"
    using assms by (rule counted_builderStage)
  show ?thesis
  proof (cases "summaryStage ms req ev (builderStage ms req ev s)")
    case (Inl a)
    obtain e s1 where a: "a = (e, s1)" by (cases a)
    from counted_summaryStage(1) [OF b] Inl a have "counted s1" by simp
    with Inl a show ?thesis by (simp add: execute_def counted_error_part)
  next
    case (Inr a)
    obtain sm s1 where a: "a = (sm, s1)" by (cases a)
    from counted_summaryStage(2) [OF b] Inr a have s1: "counted s1" by simp
    show ?thesis
    proof (cases "generationStage ms req ev sm s1")
      case (Inl c)
      obtain e s2 where c: "c = (e, s2)" by (cases c)
      from counted_generationStage(1) [OF s1] Inl c have "counted s2" by simp
      with Inr a Inl c show ?thesis by (simp add: execute_def counted_error_part)
    next
      case (Inr s2)
      from counted_generationStage(2) [OF s1] Inr have "counted s2" by simp
      with \<open>summaryStage ms req ev (builderStage ms req ev s) = Inr a\<close> a Inr show ?thesis
        by (simp add: execute_def)
    qed
  qed
qed

section \<open>The two responses of the endpoint\<close>

lemma builderAction_Returned:
  assumes "builderAction rq ev = Returned r s"
  obtains (failed) req m where "body rq = ParsedBody req" "messages req = NotAnArray m"
      "r = JsonResponse 500 [(''Content-Type'', ''application/json'')] m"
      "s = logger (LogError ''Error in builder endpoint'' (ErrorObj m)) initial_state"
  | (streamed) req ms h where "body rq = ParsedBody req" "messages req = MessagesArray ms"
      "r = StreamResponse h" "s = execute ms req ev (startState ms)"
  using assms
  by (auto simp: builderAction_def
      split: body_parse.splits sum.splits messages_value.splits)

lemma startState_fields [simp]:
  "dataStream (startState ms) = []"
  "calls (startState ms) = []"
  "progressCounter (startState ms) = 1"
  "cumulativeUsage (startState ms) = \<lparr>completionTokens = 0, promptTokens = 0, totalTokens = 0\<rparr>"
  "stream (startState ms) = create"
  by (simp_all add: startState_def logger_def initial_state_def)

lemma counted_startState: "counted (startState ms)"
  by (simp add: startState_def counted_initial)

section \<open>What each stage can write\<close>

text \<open>
  The parts a stage adds to the data stream, by kind: this is what the claims on labels,
  annotations and chat ids rest on.
\<close>

lemma builderStage_skipped: "\<not> builderConfigured req \<Longrightarrow> builderStage ms req ev s = s"
  by (simp add: builderStage_def builderConfigured_def split: option.splits)

lemma builderStage_new:
  assumes "x \<in> set (dataStream (builderStage ms req ev s))"
  shows "x \<in> set (dataStream s)
       \<or> builderConfigured req
         \<and> ((\<exists>p. x = Data p \<and> label p = ''builder'')
            \<or> (\<exists>d. x = MessageAnnotation (ContextData d (orEmpty (lastMessageId ms)))))"
proof (cases "builderConfigured req")
  case False
  with assms show ?thesis by (simp add: builderStage_skipped)
next
  case True
  with assms show ?thesis
    by (auto simp: builderStage_def Let_def prim_defs split: option.splits sum.splits if_splits)
qed

lemma summaryStage_new:
  assumes "summaryStage ms req ev s = Inl (e, s1) \<or> summaryStage ms req ev s = Inr (sm, s1)"
      and "x \<in> set (dataStream s1)"
  shows "x \<in> set (dataStream s)
       \<or> summaryRequested req ev
         \<and> ((\<exists>p. x = Data p \<and> label p = ''summary'')
            \<or> (\<exists>t. x = MessageAnnotation (ChatSummary t (lastMessageId ms))))"
  using assms
  by (auto simp: summaryStage_def summaryRequested_def Let_def prim_defs
      split: if_splits summary_outcome.splits sum.splits)

lemma onFinish_new:
  assumes "x \<in> set (dataStream (onFinish f s))"
  shows "x \<in> set (dataStream s)
       \<or> (\<exists>p. x = Data p \<and> label p = ''response'')
       \<or> (\<exists>t. x = MessageAnnotation (UsageAnnotation t))"
  using assms
  by (cases f) (auto simp: onFinish_fields split: if_splits)

lemma generationStage_new:
  assumes "generationStage ms req ev sm s = Inl (e, s1) \<or> generationStage ms req ev sm s = Inr s1"
      and "x \<in> set (dataStream s1)"
  shows "x \<in> set (dataStream s)
       \<or> (\<exists>p. x = Data p \<and> label p = ''response'')
       \<or> (\<exists>t. x = MessageAnnotation (UsageAnnotation t))
       \<or> (\<exists>q. x = Merged q)"
  using assms
  by (auto simp: generationStage_def Let_def prim_defs
      split: gen_outcome.splits option.splits dest!: onFinish_new)

text \<open>The three ways \<open>execute\<close> can end, with the states it goes through.\<close>

lemma execute_cases:
  obtains (summary_threw) e s1 where
      "summaryStage ms req ev (builderStage ms req ev s) = Inl (e, s1)"
      "execute ms req ev s = s1\<lparr>dataStream := dataStream s1 @ [ErrorPart e]\<rparr>"
  | (generation_threw) sm s1 e s2 where
      "summaryStage ms req ev (builderStage ms req ev s) = Inr (sm, s1)"
      "generationStage ms req ev sm s1 = Inl (e, s2)"
      "execute ms req ev s = s2\<lparr>dataStream := dataStream s2 @ [ErrorPart e]\<rparr>"
  | (generated) sm s1 s2 where
      "summaryStage ms req ev (builderStage ms req ev s) = Inr (sm, s1)"
      "generationStage ms req ev sm s1 = Inr s2"
      "execute ms req ev s = s2"
proof (cases "summaryStage ms req ev (builderStage ms req ev s)")
  case (Inl a)
  then show ?thesis
    by (cases a) (auto simp: execute_def intro: summary_threw)
next
  case (Inr a)
  obtain sm s1 where a: "a = (sm, s1)" by (cases a)
  show ?thesis
  proof (cases "generationStage ms req ev sm s1")
    case (Inl c)
    with Inr a show ?thesis
      by (cases c) (auto simp: execute_def intro: generation_threw)
  next
    case (Inr s2)
    with \<open>summaryStage ms req ev (builderStage ms req ev s) = Inr a\<close> a show ?thesis
      by (auto simp: execute_def intro: generated)
  qed
qed

lemma execute_new:
  assumes "x \<in> set (dataStream (execute ms req ev s))"
  shows "x \<in> set (dataStream s)
       \<or> builderConfigured req
         \<and> ((\<exists>p. x = Data p \<and> label p = ''builder'')
            \<or> (\<exists>d. x = MessageAnnotation (ContextData d (orEmpty (lastMessageId ms)))))
       \<or> summaryRequested req ev
         \<and> ((\<exists>p. x = Data p \<and> label p = ''summary'')
            \<or> (\<exists>t. x = MessageAnnotation (ChatSummary t (lastMessageId ms))))
       \<or> (\<exists>p. x = Data p \<and> label p = ''response'')
       \<or> (\<exists>t. x = MessageAnnotation (UsageAnnotation t))
       \<or> (\<exists>q. x = Merged q)
       \<or> (\<exists>e. x = ErrorPart e)"
proof (cases rule: execute_cases [of ms req ev s])
  case (summary_threw e s1)
  with assms have "x \<in> set (dataStream s1) \<or> x = ErrorPart e" by auto
  then show ?thesis
    using summaryStage_new [of ms req ev "builderStage ms req ev s" e s1 _ x]
      builderStage_new [of x ms req ev s] summary_threw(1)
    by blast
next
  case (generation_threw sm s1 e s2)
  with assms have "x \<in> set (dataStream s2) \<or> x = ErrorPart e" by auto
  then show ?thesis
    using generationStage_new [of ms req ev sm s1 e s2 x]
      summaryStage_new [of ms req ev "builderStage ms req ev s" _ s1 sm x]
      builderStage_new [of x ms req ev s] generation_threw(1,2)
    by blast
next
  case (generated sm s1 s2)
  with assms have "x \<in> set (dataStream s2)" by simp
  then show ?thesis
    using generationStage_new [of ms req ev sm s1 _ s2 x]
      summaryStage_new [of ms req ev "builderStage ms req ev s" _ s1 sm x]
      builderStage_new [of x ms req ev s] generated(1,2)
    by blast
qed

section \<open>The calls of a run\<close>

lemma builderStage_calls:
  "StreamTextCall a \<in> set (calls (builderStage ms req ev s)) \<Longrightarrow> StreamTextCall a \<in> set (calls s)"
  by (auto simp: builderStage_def fetchCall_def Let_def prim_defs split: option.splits sum.splits if_splits)

lemma summaryStage_calls:
  assumes "summaryStage ms req ev s = Inl (e, s1) \<or> summaryStage ms req ev s = Inr (sm, s1)"
      and "StreamTextCall a \<in> set (calls s1)"
  shows "StreamTextCall a \<in> set (calls s)"
  using assms
  by (auto simp: summaryStage_def Let_def prim_defs
      split: if_splits summary_outcome.splits sum.splits)

lemma onFinish_calls [simp]: "calls (onFinish f s) = calls s"
  by (cases f) (simp add: onFinish_fields)

lemma generationStage_calls:
  assumes "generationStage ms req ev sm s = Inl (e, s1) \<or> generationStage ms req ev sm s = Inr s1"
  shows "calls s1 = calls s @ [StreamTextCall (streamTextArgs ms req sm)]"
  using assms
  by (auto simp: generationStage_def Let_def prim_defs split: gen_outcome.splits option.splits)

lemma execute_calls:
  assumes "StreamTextCall a \<in> set (calls (execute ms req ev s))"
  shows "StreamTextCall a \<in> set (calls s) \<or> (\<exists>sm. a = streamTextArgs ms req sm)"
proof (cases rule: execute_cases [of ms req ev s])
  case (summary_threw e s1)
  with assms have "StreamTextCall a \<in> set (calls s1)" by simp
  then show ?thesis
    using summaryStage_calls [of ms req ev "builderStage ms req ev s" e s1 _ a]
      builderStage_calls [of a ms req ev s] summary_threw(1)
    by blast
next
  case (generation_threw sm s1 e s2)
  with assms have "StreamTextCall a \<in> set (calls s2)" by simp
  then show ?thesis
    using generationStage_calls [of ms req ev sm s1 e s2]
      summaryStage_calls [of ms req ev "builderStage ms req ev s" _ s1 sm a]
      builderStage_calls [of a ms req ev s] generation_threw(1,2)
    by auto
next
  case (generated sm s1 s2)
  with assms have "StreamTextCall a \<in> set (calls s2)" by simp
  then show ?thesis
    using generationStage_calls [of ms req ev sm s1 _ s2]
      summaryStage_calls [of ms req ev "builderStage ms req ev s" _ s1 sm a]
      builderStage_calls [of a ms req ev s] generated(1,2)
    by auto
qed

section \<open>The data stream and the log only grow\<close>

lemma builderStage_grows:
  "\<exists>out. dataStream (builderStage ms req ev s) = dataStream s @ out"
  "\<exists>l. logs (builderStage ms req ev s) = logs s @ l"
  by (simp_all add: builderStage_def Let_def split: option.splits sum.splits)

lemma summaryStage_grows:
  assumes "summaryStage ms req ev s = Inl (e, s1) \<or> summaryStage ms req ev s = Inr (sm, s1)"
  shows "\<exists>out. dataStream s1 = dataStream s @ out" and "\<exists>l. logs s1 = logs s @ l"
proof -
  show "\<exists>out. dataStream s1 = dataStream s @ out"
    using assms
    by (auto simp: summaryStage_def Let_def split: if_splits summary_outcome.splits sum.splits)
  have "\<exists>l. logs (fold summaryOnFinish rs (recordCall c (logger b (writeProgress lb st m (logger a s))))) = logs s @ l"
    for rs a b c lb st m
    using fold_summaryOnFinish_logs [of rs "recordCall c (logger b (writeProgress lb st m (logger a s)))"]
    by auto
  then show "\<exists>l. logs s1 = logs s @ l"
    using assms
    by (auto simp: summaryStage_def Let_def split: if_splits summary_outcome.splits sum.splits)
qed

lemma generationStage_grows:
  assumes "generationStage ms req ev sm s = Inl (e, s1) \<or> generationStage ms req ev sm s = Inr s1"
  shows "\<exists>out. dataStream s1 = dataStream s @ out" and "\<exists>l. logs s1 = logs s @ l"
proof -
  show "\<exists>out. dataStream s1 = dataStream s @ out"
  proof (cases "genOutcome ev")
    case (StreamTextThrows x)
    with assms show ?thesis
      by (auto simp: generationStage_def Let_def)
  next
    case (StreamTextResult ps err fin k)
    show ?thesis
    proof (cases fin)
      case None
      with StreamTextResult assms show ?thesis
        by (auto simp: generationStage_def Let_def)
    next
      case (Some f)
      with StreamTextResult assms show ?thesis
        by (cases f) (auto simp: generationStage_def Let_def onFinish_fields)
    qed
  qed
  show "\<exists>l. logs s1 = logs s @ l"
  proof (cases "genOutcome ev")
    case (StreamTextThrows x)
    with assms show ?thesis
      by (auto simp: generationStage_def Let_def)
  next
    case (StreamTextResult ps err fin k)
    show ?thesis
    proof (cases fin)
      case None
      with StreamTextResult assms show ?thesis
        by (auto simp: generationStage_def Let_def)
    next
      case (Some f)
      with StreamTextResult assms show ?thesis
        by (cases f) (auto simp: generationStage_def Let_def onFinish_fields)
    qed
  qed
qed

lemma execute_grows:
  "\<exists>out. dataStream (execute ms req ev s) = dataStream (builderStage ms req ev s) @ out"
  "\<exists>l. logs (execute ms req ev s) = logs (builderStage ms req ev s) @ l"
proof -
  show "\<exists>out. dataStream (execute ms req ev s) = dataStream (builderStage ms req ev s) @ out"
  proof (cases rule: execute_cases [of ms req ev s])
    case (summary_threw e s1)
    then show ?thesis
      using summaryStage_grows(1) [of ms req ev "builderStage ms req ev s" e s1 _]
      by auto
  next
    case (generation_threw sm s1 e s2)
    then show ?thesis
      using summaryStage_grows(1) [of ms req ev "builderStage ms req ev s" _ s1 sm]
        generationStage_grows(1) [of ms req ev sm s1 e s2]
      by auto
  next
    case (generated sm s1 s2)
    then show ?thesis
      using summaryStage_grows(1) [of ms req ev "builderStage ms req ev s" _ s1 sm]
        generationStage_grows(1) [of ms req ev sm s1 _ s2]
      by auto
  qed
  show "\<exists>l. logs (execute ms req ev s) = logs (builderStage ms req ev s) @ l"
  proof (cases rule: execute_cases [of ms req ev s])
    case (summary_threw e s1)
    then show ?thesis
      using summaryStage_grows(2) [of ms req ev "builderStage ms req ev s" e s1 _]
      by auto
  next
    case (generation_threw sm s1 e s2)
    then show ?thesis
      using summaryStage_grows(2) [of ms req ev "builderStage ms req ev s" _ s1 sm]
        generationStage_grows(2) [of ms req ev sm s1 e s2]
      by auto
  next
    case (generated sm s1 s2)
    then show ?thesis
      using summaryStage_grows(2) [of ms req ev "builderStage ms req ev s" _ s1 sm]
        generationStage_grows(2) [of ms req ev sm s1 _ s2]
      by auto
  qed
qed

section \<open>The stages, outcome by outcome\<close>

lemma lastMessageId_last: "lastMessageId ms = (if ms = [] then None else msg_id (last ms))"
  by (cases ms) simp_all

lemma builderStage_succeeded:
  assumes "builderConfigured req" and "builderResponse (fetchOutcome ev) = Inr d"
  shows "dataStream (builderStage ms req ev s) =
           dataStream s @
           [Data \<lparr>label = ''builder'', status = ''in-progress'', order = progressCounter s,
                  message = ''Connecting to builder server''\<rparr>,
            MessageAnnotation (ContextData d (orEmpty (lastMessageId ms))),
            Data \<lparr>label = ''builder'', status = ''complete'', order = Suc (progressCounter s),
                  message = ''Builder server processing complete''\<rparr>]"
  using assms
  by (auto simp: builderStage_def builderConfigured_def Let_def split: option.splits)

lemma builderStage_failed:
  assumes "builderConfigured req" and "builderResponse (fetchOutcome ev) = Inl e"
  shows "dataStream (builderStage ms req ev s) =
           dataStream s @
           [Data \<lparr>label = ''builder'', status = ''in-progress'', order = progressCounter s,
                  message = ''Connecting to builder server''\<rparr>,
            Data \<lparr>label = ''builder'', status = ''in-progress'', order = Suc (progressCounter s),
                  message = ''Builder server error: '' @ errorMessage e\<rparr>]"
    and "logs (builderStage ms req ev s) =
           logs s @ [LogDebug ''Calling backend builder server'',
                     LogError ''Error calling builder server'' e]"
  using assms
  by (auto simp: builderStage_def builderConfigured_def Let_def split: option.splits)

lemma builderStage_usage [simp]:
  "cumulativeUsage (builderStage ms req ev s) = cumulativeUsage s"
  by (simp add: builderStage_def Let_def split: option.splits sum.splits)

lemma summaryStage_returns:
  assumes "\<not> summaryRequested req ev \<or> (\<exists>rs t. summaryOutcome ev = SummaryOutcome rs (Inr t))"
  shows "\<exists>sm s1. summaryStage ms req ev s = Inr (sm, s1)"
  using assms
  by (auto simp: summaryStage_def summaryRequested_def Let_def)

lemma summaryStage_usage:
  assumes "summaryStage ms req ev s = Inr (sm, s1)"
  shows "cumulativeUsage s1 = fold addReport (summaryReports req ev) (cumulativeUsage s)"
  using assms
  by (auto simp: summaryStage_def summaryReports_def summaryRequested_def Let_def
      split: if_splits summary_outcome.splits sum.splits)

lemma generationStage_finished:
  assumes "genOutcome ev = StreamTextResult ps err (Some (FinishEvent reason u)) k"
      and "reason \<noteq> ''length''"
  shows "\<exists>s1. generationStage ms req ev sm s = Inr s1
            \<and> dataStream s1 =
                dataStream s @
                Data \<lparr>label = ''response'', status = ''in-progress'', order = progressCounter s,
                      message = ''Generating Response''\<rparr> #
                map Merged (take k ps) @
                [MessageAnnotation (UsageAnnotation (addReport u (cumulativeUsage s))),
                 Data \<lparr>label = ''response'', status = ''complete'',
                       order = Suc (progressCounter s), message = ''Response Generated''\<rparr>] @
                map Merged (drop k ps)"
  using assms
  by (simp add: generationStage_def Let_def onFinish_fields)

lemma generationStage_usage:
  assumes "generationStage ms req ev sm s = Inl (e, s1) \<or> generationStage ms req ev sm s = Inr s1"
      and "MessageAnnotation (UsageAnnotation t) \<in> set (dataStream s1)"
  shows "MessageAnnotation (UsageAnnotation t) \<in> set (dataStream s)
       \<or> t = fold addReport (generationReports ev) (cumulativeUsage s)"
proof (cases "genOutcome ev")
  case (StreamTextThrows x)
  with assms show ?thesis
    by (auto simp: generationStage_def Let_def)
next
  case (StreamTextResult ps err fin k)
  show ?thesis
  proof (cases fin)
    case None
    with StreamTextResult assms show ?thesis
      by (auto simp: generationStage_def Let_def)
  next
    case (Some f)
    obtain reason u where f: "f = FinishEvent reason u" by (cases f)
    with Some StreamTextResult have "generationReports ev = [u]"
      by (simp add: generationReports_def)
    with f Some StreamTextResult assms show ?thesis
      by (auto simp: generationStage_def Let_def onFinish_fields split: if_splits)
  qed
qed

lemma fold_addReport:
  "fold addReport rs u =
     \<lparr>completionTokens = completionTokens u + sum_list (map reportedCompletion rs),
      promptTokens = promptTokens u + sum_list (map reportedPrompt rs),
      totalTokens = totalTokens u + sum_list (map reportedTotal rs)\<rparr>"
proof (induction rs arbitrary: u)
  case Nil
  show ?case by simp
next
  case (Cons r rs)
  show ?case
  proof (cases r)
    case None
    with Cons show ?thesis by simp
  next
    case (Some x)
    obtain c p t where "x = UsageReport c p t" by (cases x)
    with Some Cons show ?thesis
      by (cases c; cases p; cases t) simp_all
  qed
qed

lemma builderAction_streamed:
  assumes "builderAction rq ev = Returned r s"
      and "body rq = ParsedBody req"
      and "messages req = MessagesArray ms"
  shows "s = execute ms req ev (startState ms)" and "r = StreamResponse streamHeaders"
  using assms
  by (auto simp: builderAction_def split: sum.splits)

section \<open>Evaluating the examples\<close>

lemmas example_defs = example_message_def five_messages_def plain_body_def full_body_def
  example_request_def example_env_def builder_down_def builder_up_def

lemmas run_defs = execute_def builderStage_def summaryStage_def generationStage_def
  startState_def initial_state_def fetchCall_def streamTextArgs_def Let_def
  onFinish_fields progressOrders_def decimal.simps

section \<open>Switching the source\<close>

lemma pump_without_source: "active s = None \<Longrightarrow> (pump ^^ n) s = s"
  by (induction n) (simp_all add: pump_def)

lemma pump_forwards:
  "stream_status s = IsOpen \<Longrightarrow> active s = Some (Source xs e)
     \<Longrightarrow> readable ((pump ^^ n) s) = readable s @ take n xs"
proof (induction n arbitrary: s xs)
  case 0
  then show ?case by simp
next
  case (Suc n)
  show ?case
  proof (cases xs)
    case Nil
    with Suc.prems have "active (pump s) = None" and "readable (pump s) = readable s"
      by (cases e; simp add: pump_def)+
    with Nil show ?thesis
      by (simp add: funpow_swap1 pump_without_source)
  next
    case (Cons x xs')
    with Suc.prems have p: "stream_status (pump s) = IsOpen"
      "active (pump s) = Some (Source xs' e)" "readable (pump s) = readable s @ [x]"
      by (simp_all add: pump_def)
    from Suc.IH [OF p(1) p(2)] p(3) Cons show ?thesis
      by (simp add: funpow_swap1)
  qed
qed

text \<open>
  Claim C1. On an open switchable stream, \<open>switchSource\<close> itself leaves what was
  already forwarded untouched; after any number of reads the output is what was there
  before, in its order, followed by a prefix of the new source's chunks; and once the new
  source has been read to its end the output is the old content followed by all of the
  new source's chunks, each once.
\<close>

theorem switchSource_keeps_then_forwards:
  assumes "stream_status s = IsOpen"
  shows "readable (switchSource (Source xs e) s) = readable s
       \<and> (\<forall>n. readable ((pump ^^ n) (switchSource (Source xs e) s)) = readable s @ take n xs)
       \<and> readable (drain (switchSource (Source xs e) s)) = readable s @ xs"
proof -
  let ?t = "switchSource (Source xs e) s"
  from assms have t: "stream_status ?t = IsOpen" "active ?t = Some (Source xs e)"
    "readable ?t = readable s"
    by (simp_all add: switchSource_def)
  have "\<forall>n. readable ((pump ^^ n) ?t) = readable s @ take n xs"
    using pump_forwards [OF t(1) t(2)] t(3) by simp
  moreover have "readable (drain ?t) = readable s @ xs"
    using pump_forwards [OF t(1) t(2), of "Suc (length xs)"] t
    by (simp add: drain_def remaining_def del: funpow.simps)
  ultimately show ?thesis using t(3) by simp
qed

theorem switchSource_keeps_then_forwards_witness:
  "stream_status ((pump ^^ 2) (switchSource (Source [''a'', ''b'', ''c''] EndOfData) create)) = IsOpen
   \<and> readable ((pump ^^ 2) (switchSource (Source [''a'', ''b'', ''c''] EndOfData) create)) = [''a'', ''b'']
   \<and> readable (drain (switchSource (Source [''x'', ''y''] EndOfData)
        ((pump ^^ 2) (switchSource (Source [''a'', ''b'', ''c''] EndOfData) create))))
      = [''a'', ''b'', ''x'', ''y'']"
proof -
  let ?s = "(pump ^^ 2) (switchSource (Source [''a'', ''b'', ''c''] EndOfData) create)"
  have h: "stream_status ?s = IsOpen"
    by (simp add: numeral_2_eq_2 pump_def switchSource_def create_def)
  have r: "readable ?s = [''a'', ''b'']"
    by (simp add: numeral_2_eq_2 pump_def switchSource_def create_def)
  from switchSource_keeps_then_forwards [OF h, of "[''x'', ''y'']" EndOfData] h r
  show ?thesis by simp
qed

section \<open>The order counter\<close>

lemma counted_orders:
  assumes "counted s"
  shows "progressOrders (dataStream s) = [1..<Suc (length (progressOrders (dataStream s)))]"
    and "progressCounter s = Suc (length (progressOrders (dataStream s)))"
  using assms by (auto simp: counted_def)

lemma builderAction_counted:
  assumes "builderAction rq ev = Returned r s"
  shows "counted s"
  using assms
proof (cases rule: builderAction_Returned)
  case (failed req m)
  then show ?thesis by (simp add: counted_initial)
next
  case (streamed req ms h)
  then show ?thesis by (simp add: counted_execute counted_startState)
qed

lemma builderAction_example:
  "builderAction (example_request (plain_body ms)) ev
     = Returned (StreamResponse streamHeaders) (execute ms (plain_body ms) ev (startState ms))"
  "builderAction (example_request (full_body ms)) ev
     = Returned (StreamResponse streamHeaders) (execute ms (full_body ms) ev (startState ms))"
  by (simp_all add: builderAction_def example_request_def plain_body_def full_body_def)

text \<open>
  Claim C2. In every request that gets a response, the \<open>order\<close> values of the progress
  records, in the order they are written, are strictly increasing and, when there is one,
  start at 1; no value occurs twice; and the counter ends at one more than the number of
  records written, so it was never set back. The counter starts at 1 in every request
  (\<open>initial_state\<close>): nothing is carried from one request to the next.
\<close>

theorem progress_orders_strictly_increasing:
  assumes "builderAction rq ev = Returned r s"
  shows "sorted_wrt (<) (progressOrders (dataStream s))
       \<and> distinct (progressOrders (dataStream s))
       \<and> (progressOrders (dataStream s) \<noteq> [] \<longrightarrow> hd (progressOrders (dataStream s)) = 1)
       \<and> progressCounter s = Suc (length (progressOrders (dataStream s)))
       \<and> progressCounter initial_state = 1"
proof -
  from assms have c: "counted s" by (rule builderAction_counted)
  then have o: "progressOrders (dataStream s) = [1..<progressCounter s]"
    by (simp add: counted_def)
  have 1: "sorted_wrt (<) (progressOrders (dataStream s))"
    unfolding o by simp
  have 2: "distinct (progressOrders (dataStream s))"
    unfolding o by simp
  have 3: "progressOrders (dataStream s) \<noteq> [] \<longrightarrow> hd (progressOrders (dataStream s)) = 1"
    unfolding o by simp
  have 4: "progressCounter s = Suc (length (progressOrders (dataStream s)))"
    using c by (rule counted_orders(2))
  have 5: "progressCounter initial_state = 1"
    by (simp add: initial_state_def)
  from 1 2 3 4 5 show ?thesis by blast
qed

theorem progress_orders_strictly_increasing_witness:
  "builderAction (example_request (full_body five_messages)) (example_env builder_down ''stop'')
     = Returned (StreamResponse streamHeaders)
         (execute five_messages (full_body five_messages) (example_env builder_down ''stop'')
            (startState five_messages))
   \<and> progressOrders (dataStream
         (execute five_messages (full_body five_messages) (example_env builder_down ''stop'')
            (startState five_messages))) = [1, 2, 3, 4, 5, 6]
   \<and> sorted_wrt (<) (progressOrders (dataStream
         (execute five_messages (full_body five_messages) (example_env builder_down ''stop'')
            (startState five_messages))))"
proof -
  let ?s = "execute five_messages (full_body five_messages) (example_env builder_down ''stop'')
              (startState five_messages)"
  have h: "builderAction (example_request (full_body five_messages))
             (example_env builder_down ''stop'') = Returned (StreamResponse streamHeaders) ?s"
    by (rule builderAction_example)
  have v: "progressOrders (dataStream ?s) = [1, 2, 3, 4, 5, 6]"
    by (simp add: example_defs run_defs)
  from progress_orders_strictly_increasing [OF h]
  have "sorted_wrt (<) (progressOrders (dataStream ?s))" by blast
  with h v show ?thesis by blast
qed

text \<open>
  Claim C9. In every request that gets a response, the \<open>order\<close> values of the progress
  records written are exactly 1, 2, ..., n in this order, n being the number of records:
  there is no gap, whichever stages are skipped.
\<close>

theorem progress_orders_contiguous:
  assumes "builderAction rq ev = Returned r s"
  shows "progressOrders (dataStream s) = [1..<Suc (length (progressOrders (dataStream s)))]"
  using builderAction_counted [OF assms] by (rule counted_orders(1))

theorem progress_orders_contiguous_witness:
  "builderAction (example_request (plain_body five_messages)) (example_env builder_down ''stop'')
     = Returned (StreamResponse streamHeaders)
         (execute five_messages (plain_body five_messages) (example_env builder_down ''stop'')
            (startState five_messages))
   \<and> progressOrders (dataStream
         (execute five_messages (plain_body five_messages) (example_env builder_down ''stop'')
            (startState five_messages))) = [1, 2]"
proof -
  let ?s = "execute five_messages (plain_body five_messages) (example_env builder_down ''stop'')
              (startState five_messages)"
  have h: "builderAction (example_request (plain_body five_messages))
             (example_env builder_down ''stop'') = Returned (StreamResponse streamHeaders) ?s"
    by (rule builderAction_example)
  have v: "length (progressOrders (dataStream ?s)) = 2"
    by (simp add: example_defs run_defs)
  have u: "[1..<Suc 2] = [1, 2]"
    by (simp add: upt_conv_Cons)
  from progress_orders_contiguous [OF h]
  have "progressOrders (dataStream ?s) = [1, 2]"
    unfolding v u .
  with h show ?thesis by blast
qed

section \<open>The truncation marker\<close>

text \<open>
  Claim C7. The \<open>messageSliceId\<close> of every call of the text generator is
  \<open>max(0, messageCount - 3)\<close>: 2 for a conversation of five messages, 0 for one of two.
\<close>

theorem messageSliceId_passed_to_generation:
  assumes "builderAction rq ev = Returned r s"
      and "body rq = ParsedBody req"
      and "messages req = MessagesArray ms"
      and "StreamTextCall a \<in> set (calls s)"
  shows "int (st_messageSliceId a) = max 0 (int (length ms) - 3)
       \<and> (length ms = 5 \<longrightarrow> st_messageSliceId a = 2)
       \<and> (length ms = 2 \<longrightarrow> st_messageSliceId a = 0)"
proof -
  from assms(1,2,3) have "s = execute ms req ev (startState ms)"
    by (rule builderAction_streamed)
  with assms(4) obtain sm where "a = streamTextArgs ms req sm"
    using execute_calls [of a ms req ev "startState ms"] by auto
  then have "st_messageSliceId a = messageSliceId ms"
    by (simp add: streamTextArgs_def)
  then show ?thesis
    by (simp add: messageSliceId_def)
qed

theorem messageSliceId_passed_to_generation_witness:
  "StreamTextCall (streamTextArgs five_messages (plain_body five_messages) None)
     \<in> set (calls (execute five_messages (plain_body five_messages)
                     (example_env builder_down ''stop'') (startState five_messages)))
   \<and> length five_messages = 5
   \<and> st_messageSliceId (streamTextArgs five_messages (plain_body five_messages) None) = 2"
proof -
  let ?s = "execute five_messages (plain_body five_messages) (example_env builder_down ''stop'')
              (startState five_messages)"
  have h1: "builderAction (example_request (plain_body five_messages))
             (example_env builder_down ''stop'') = Returned (StreamResponse streamHeaders) ?s"
    by (rule builderAction_example)
  have h2: "body (example_request (plain_body five_messages)) = ParsedBody (plain_body five_messages)"
    by (simp add: example_request_def)
  have h3: "messages (plain_body five_messages) = MessagesArray five_messages"
    by (simp add: plain_body_def)
  have h4: "StreamTextCall (streamTextArgs five_messages (plain_body five_messages) None)
              \<in> set (calls ?s)"
    by (simp add: example_defs run_defs)
  have l: "length five_messages = 5"
    by (simp add: five_messages_def)
  from messageSliceId_passed_to_generation [OF h1 h2 h3 h4]
  have "length five_messages = 5
          \<longrightarrow> st_messageSliceId (streamTextArgs five_messages (plain_body five_messages) None) = 2"
    by blast
  with h4 l show ?thesis by blast
qed

section \<open>Stages that are skipped\<close>

text \<open>
  Claim C6. When the request has no builder URL (no \<open>builderConfig\<close>, or one whose
  \<open>backendUrl\<close> is missing or empty), the data stream holds no progress record labelled
  \<open>builder\<close> and no builder result annotation (\<open>contextData\<close>). When the file paths
  are empty or context optimisation is off, it holds no progress record labelled
  \<open>summary\<close> and no summary annotation (\<open>chatSummary\<close>).
\<close>

theorem skipped_stage_writes_nothing:
  assumes "builderAction rq ev = Returned r s"
      and "body rq = ParsedBody req"
  shows "(\<not> builderConfigured req \<longrightarrow>
            (\<forall>p. Data p \<in> set (dataStream s) \<longrightarrow> label p \<noteq> ''builder'')
          \<and> (\<forall>d c. MessageAnnotation (ContextData d c) \<notin> set (dataStream s)))
       \<and> (getFilePaths ev (case files req of None \<Rightarrow> [] | Some f \<Rightarrow> f) = []
            \<or> \<not> contextOptimization req \<longrightarrow>
            (\<forall>p. Data p \<in> set (dataStream s) \<longrightarrow> label p \<noteq> ''summary'')
          \<and> (\<forall>t c. MessageAnnotation (ChatSummary t c) \<notin> set (dataStream s)))"
  using assms(1)
proof (cases rule: builderAction_Returned)
  case (failed req' m)
  then show ?thesis by (simp add: initial_state_def)
next
  case (streamed req' ms h)
  with assms(2) have s: "s = execute ms req ev (startState ms)" by simp
  have new: "x \<in> set (dataStream s) \<Longrightarrow>
         builderConfigured req
           \<and> ((\<exists>p. x = Data p \<and> label p = ''builder'')
              \<or> (\<exists>d. x = MessageAnnotation (ContextData d (orEmpty (lastMessageId ms)))))
       \<or> summaryRequested req ev
           \<and> ((\<exists>p. x = Data p \<and> label p = ''summary'')
              \<or> (\<exists>t. x = MessageAnnotation (ChatSummary t (lastMessageId ms))))
       \<or> (\<exists>p. x = Data p \<and> label p = ''response'')
       \<or> (\<exists>t. x = MessageAnnotation (UsageAnnotation t))
       \<or> (\<exists>q. x = Merged q)
       \<or> (\<exists>e. x = ErrorPart e)" for x
    using execute_new [of x ms req ev "startState ms"] s by simp
  have b: "\<not> builderConfigured req \<longrightarrow>
            (\<forall>p. Data p \<in> set (dataStream s) \<longrightarrow> label p \<noteq> ''builder'')
          \<and> (\<forall>d c. MessageAnnotation (ContextData d c) \<notin> set (dataStream s))"
    using new by fastforce
  have "getFilePaths ev (case files req of None \<Rightarrow> [] | Some f \<Rightarrow> f) = []
          \<or> \<not> contextOptimization req \<Longrightarrow> \<not> summaryRequested req ev"
    by (auto simp: summaryRequested_def)
  then have "getFilePaths ev (case files req of None \<Rightarrow> [] | Some f \<Rightarrow> f) = []
            \<or> \<not> contextOptimization req \<longrightarrow>
            (\<forall>p. Data p \<in> set (dataStream s) \<longrightarrow> label p \<noteq> ''summary'')
          \<and> (\<forall>t c. MessageAnnotation (ChatSummary t c) \<notin> set (dataStream s))"
    using new by fastforce
  with b show ?thesis by blast
qed

theorem skipped_stage_writes_nothing_witness:
  "\<not> builderConfigured (plain_body [example_message ''m1''])
   \<and> \<not> contextOptimization (plain_body [example_message ''m1''])
   \<and> length (dataStream (execute [example_message ''m1''] (plain_body [example_message ''m1''])
                 (example_env builder_up ''stop'') (startState [example_message ''m1'']))) = 5
   \<and> Data \<lparr>label = ''builder'', status = ''in-progress'', order = 1,
             message = ''Connecting to builder server''\<rparr>
       \<notin> set (dataStream (execute [example_message ''m1''] (plain_body [example_message ''m1''])
                 (example_env builder_up ''stop'') (startState [example_message ''m1''])))
   \<and> MessageAnnotation (ContextData ''{}'' ''m1'')
       \<notin> set (dataStream (execute [example_message ''m1''] (plain_body [example_message ''m1''])
                 (example_env builder_up ''stop'') (startState [example_message ''m1''])))
   \<and> Data \<lparr>label = ''summary'', status = ''in-progress'', order = 1,
             message = ''Analysing Request''\<rparr>
       \<notin> set (dataStream (execute [example_message ''m1''] (plain_body [example_message ''m1''])
                 (example_env builder_up ''stop'') (startState [example_message ''m1''])))
   \<and> MessageAnnotation (ChatSummary ''summary'' (Some ''m1''))
       \<notin> set (dataStream (execute [example_message ''m1''] (plain_body [example_message ''m1''])
                 (example_env builder_up ''stop'') (startState [example_message ''m1''])))"
proof -
  let ?ms = "[example_message ''m1'']"
  let ?s = "execute ?ms (plain_body ?ms) (example_env builder_up ''stop'') (startState ?ms)"
  have h1: "builderAction (example_request (plain_body ?ms)) (example_env builder_up ''stop'')
              = Returned (StreamResponse streamHeaders) ?s"
    by (rule builderAction_example)
  have h2: "body (example_request (plain_body ?ms)) = ParsedBody (plain_body ?ms)"
    by (simp add: example_request_def)
  have g1: "\<not> builderConfigured (plain_body ?ms)"
    by (simp add: builderConfigured_def plain_body_def)
  have g2: "\<not> contextOptimization (plain_body ?ms)"
    by (simp add: plain_body_def)
  have n: "length (dataStream ?s) = 5"
    by (simp add: example_defs run_defs)
  note t = skipped_stage_writes_nothing [OF h1 h2]
  from t g1
  have b: "\<forall>p. Data p \<in> set (dataStream ?s) \<longrightarrow> label p \<noteq> ''builder''"
    and c: "\<forall>d c. MessageAnnotation (ContextData d c) \<notin> set (dataStream ?s)"
    by blast+
  from t g2
  have m: "\<forall>p. Data p \<in> set (dataStream ?s) \<longrightarrow> label p \<noteq> ''summary''"
    and a: "\<forall>t c. MessageAnnotation (ChatSummary t c) \<notin> set (dataStream ?s)"
    by blast+
  have 1: "Data \<lparr>label = ''builder'', status = ''in-progress'', order = 1,
                 message = ''Connecting to builder server''\<rparr> \<notin> set (dataStream ?s)"
    using b by force
  have 2: "Data \<lparr>label = ''summary'', status = ''in-progress'', order = 1,
                 message = ''Analysing Request''\<rparr> \<notin> set (dataStream ?s)"
    using m by force
  from g1 g2 n 1 2 c a show ?thesis by blast
qed

section \<open>The chat id of the annotations\<close>

text \<open>
  Claim C10. When the builder stage runs and the builder answers, the builder result
  annotation is written, and the \<open>chatId\<close> of every such annotation is the id of the last
  message, or the empty string when there is no message or the last one has no id. The
  \<open>chatId\<close> of a summary annotation is the id of the last message as it is: absent when
  there is no message or the last one has no id.
\<close>

theorem annotation_chatId:
  assumes "builderAction rq ev = Returned r s"
      and "body rq = ParsedBody req"
      and "messages req = MessagesArray ms"
      and "builderConfigured req"
      and "builderResponse (fetchOutcome ev) = Inr d"
  shows "MessageAnnotation
           (ContextData d (if ms = [] then []
                           else (case msg_id (last ms) of None \<Rightarrow> [] | Some i \<Rightarrow> i)))
           \<in> set (dataStream s)
       \<and> (\<forall>d' c. MessageAnnotation (ContextData d' c) \<in> set (dataStream s) \<longrightarrow>
             c = (if ms = [] then []
                  else (case msg_id (last ms) of None \<Rightarrow> [] | Some i \<Rightarrow> i)))
       \<and> (\<forall>t c. MessageAnnotation (ChatSummary t c) \<in> set (dataStream s) \<longrightarrow>
             c = (if ms = [] then None else msg_id (last ms)))"
proof -
  let ?c = "if ms = [] then [] else (case msg_id (last ms) of None \<Rightarrow> [] | Some i \<Rightarrow> i)"
  have c: "orEmpty (lastMessageId ms) = ?c"
    by (cases "msg_id (last ms)") (simp_all add: lastMessageId_last)
  from assms(1,2,3) have s: "s = execute ms req ev (startState ms)"
    by (rule builderAction_streamed)
  obtain out where "dataStream s = dataStream (builderStage ms req ev (startState ms)) @ out"
    using execute_grows(1) [of ms req ev "startState ms"] s by auto
  then have 1: "MessageAnnotation (ContextData d ?c) \<in> set (dataStream s)"
    using builderStage_succeeded [OF assms(4,5), of ms "startState ms"] c by simp
  have new: "x \<in> set (dataStream s) \<Longrightarrow>
         builderConfigured req
           \<and> ((\<exists>p. x = Data p \<and> label p = ''builder'')
              \<or> (\<exists>d. x = MessageAnnotation (ContextData d (orEmpty (lastMessageId ms)))))
       \<or> summaryRequested req ev
           \<and> ((\<exists>p. x = Data p \<and> label p = ''summary'')
              \<or> (\<exists>t. x = MessageAnnotation (ChatSummary t (lastMessageId ms))))
       \<or> (\<exists>p. x = Data p \<and> label p = ''response'')
       \<or> (\<exists>t. x = MessageAnnotation (UsageAnnotation t))
       \<or> (\<exists>q. x = Merged q)
       \<or> (\<exists>e. x = ErrorPart e)" for x
    using execute_new [of x ms req ev "startState ms"] s by simp
  have 2: "\<forall>d' c. MessageAnnotation (ContextData d' c) \<in> set (dataStream s) \<longrightarrow> c = ?c"
    using new c by fastforce
  have 3: "\<forall>t c. MessageAnnotation (ChatSummary t c) \<in> set (dataStream s) \<longrightarrow>
             c = (if ms = [] then None else msg_id (last ms))"
    using new lastMessageId_last [of ms] by fastforce
  from 1 2 3 show ?thesis by blast
qed

theorem annotation_chatId_witness:
  "builderConfigured (full_body [])
   \<and> builderResponse (fetchOutcome (example_env builder_up ''stop'')) = Inr ''{}''
   \<and> MessageAnnotation (ContextData ''{}'' [])
       \<in> set (dataStream (execute [] (full_body []) (example_env builder_up ''stop'') (startState [])))
   \<and> MessageAnnotation (ChatSummary ''summary'' None)
       \<in> set (dataStream (execute [] (full_body []) (example_env builder_up ''stop'') (startState [])))"
proof -
  let ?s = "execute [] (full_body []) (example_env builder_up ''stop'') (startState [])"
  have h1: "builderAction (example_request (full_body [])) (example_env builder_up ''stop'')
              = Returned (StreamResponse streamHeaders) ?s"
    by (rule builderAction_example)
  have h2: "body (example_request (full_body [])) = ParsedBody (full_body [])"
    by (simp add: example_request_def)
  have h3: "messages (full_body []) = MessagesArray []"
    by (simp add: full_body_def)
  have h4: "builderConfigured (full_body [])"
    by (simp add: builderConfigured_def full_body_def)
  have h5: "builderResponse (fetchOutcome (example_env builder_up ''stop'')) = Inr ''{}''"
    by (simp add: example_env_def builder_up_def)
  have v: "MessageAnnotation (ChatSummary ''summary'' None) \<in> set (dataStream ?s)"
    by (simp add: example_defs run_defs)
  from annotation_chatId [OF h1 h2 h3 h4 h5]
  have "MessageAnnotation (ContextData ''{}'' []) \<in> set (dataStream ?s)"
    by simp
  with h4 h5 v show ?thesis by blast
qed

section \<open>The usage totals\<close>

lemma no_usage_before_generation:
  assumes "summaryStage ms req ev (builderStage ms req ev (startState ms)) = Inl (e, s1)
         \<or> summaryStage ms req ev (builderStage ms req ev (startState ms)) = Inr (sm, s1)"
  shows "MessageAnnotation (UsageAnnotation t) \<notin> set (dataStream s1)"
proof
  assume "MessageAnnotation (UsageAnnotation t) \<in> set (dataStream s1)"
  with assms
  have "MessageAnnotation (UsageAnnotation t)
          \<in> set (dataStream (builderStage ms req ev (startState ms)))"
    using summaryStage_new [of ms req ev "builderStage ms req ev (startState ms)" e s1 sm
        "MessageAnnotation (UsageAnnotation t)"]
    by auto
  then show False
    using builderStage_new [of "MessageAnnotation (UsageAnnotation t)" ms req ev "startState ms"]
    by auto
qed

lemma usage_after_summary:
  assumes "summaryStage ms req ev (builderStage ms req ev (startState ms)) = Inr (sm, s1)"
  shows "fold addReport (generationReports ev) (cumulativeUsage s1)
           = sumReports (usageReports req ev)"
proof -
  have "cumulativeUsage s1 =
          fold addReport (summaryReports req ev)
            \<lparr>completionTokens = 0, promptTokens = 0, totalTokens = 0\<rparr>"
    using summaryStage_usage [OF assms] by simp
  then have "fold addReport (generationReports ev) (cumulativeUsage s1) =
          fold addReport (summaryReports req ev @ generationReports ev)
            \<lparr>completionTokens = 0, promptTokens = 0, totalTokens = 0\<rparr>"
    by simp
  then show ?thesis
    by (simp only: fold_addReport usageReports_def sumReports_def) simp
qed

text \<open>
  Claim C4. The totals of every usage annotation of a request are the field-wise sums of
  all its usage reports: those the summary stage reported, if it ran, and the one of the
  generation's finish notification; a report that is absent, a counter that is absent
  and a stage that did not run each count as zero.
\<close>

theorem usage_annotation_is_sum_of_reports:
  assumes "builderAction rq ev = Returned r s"
      and "body rq = ParsedBody req"
      and "MessageAnnotation (UsageAnnotation t) \<in> set (dataStream s)"
  shows "t = sumReports (usageReports req ev)"
  using assms(1)
proof (cases rule: builderAction_Returned)
  case (failed req' m)
  with assms(3) show ?thesis by (simp add: initial_state_def)
next
  case (streamed req' ms h)
  with assms(2) have s: "s = execute ms req ev (startState ms)" by simp
  show ?thesis
  proof (cases rule: execute_cases [of ms req ev "startState ms"])
    case (summary_threw e s1)
    with s assms(3) have "MessageAnnotation (UsageAnnotation t) \<in> set (dataStream s1)"
      by simp
    with no_usage_before_generation [of ms req ev e s1 _ t] summary_threw(1)
    show ?thesis by simp
  next
    case (generation_threw sm s1 e s2)
    with s assms(3) have "MessageAnnotation (UsageAnnotation t) \<in> set (dataStream s2)"
      by simp
    with generationStage_usage [of ms req ev sm s1 e s2 t] generation_threw(2)
      no_usage_before_generation [of ms req ev _ s1 sm t] generation_threw(1)
    have "t = fold addReport (generationReports ev) (cumulativeUsage s1)"
      by simp
    with usage_after_summary [OF generation_threw(1)] show ?thesis by simp
  next
    case (generated sm s1 s2)
    with s assms(3) have "MessageAnnotation (UsageAnnotation t) \<in> set (dataStream s2)"
      by simp
    with generationStage_usage [of ms req ev sm s1 _ s2 t] generated(2)
      no_usage_before_generation [of ms req ev _ s1 sm t] generated(1)
    have "t = fold addReport (generationReports ev) (cumulativeUsage s1)"
      by simp
    with usage_after_summary [OF generated(1)] show ?thesis by simp
  qed
qed

theorem usage_annotation_is_sum_of_reports_witness:
  "MessageAnnotation
     (UsageAnnotation \<lparr>completionTokens = 11, promptTokens = 2, totalTokens = 33\<rparr>)
     \<in> set (dataStream (execute five_messages (full_body five_messages)
                  (example_env builder_up ''stop'') (startState five_messages)))
   \<and> \<lparr>completionTokens = 11, promptTokens = 2, totalTokens = 33\<rparr>
       = sumReports (usageReports (full_body five_messages) (example_env builder_up ''stop''))
   \<and> usageReports (full_body five_messages) (example_env builder_up ''stop'')
       = [Some (UsageReport (Some 1) (Some 2) (Some 3)),
          Some (UsageReport (Some 10) None (Some 30))]"
proof -
  let ?s = "execute five_messages (full_body five_messages) (example_env builder_up ''stop'')
              (startState five_messages)"
  let ?t = "\<lparr>completionTokens = 11, promptTokens = 2, totalTokens = 33\<rparr>"
  have h1: "builderAction (example_request (full_body five_messages))
              (example_env builder_up ''stop'') = Returned (StreamResponse streamHeaders) ?s"
    by (rule builderAction_example)
  have h2: "body (example_request (full_body five_messages)) = ParsedBody (full_body five_messages)"
    by (simp add: example_request_def)
  have h3: "MessageAnnotation (UsageAnnotation ?t) \<in> set (dataStream ?s)"
    by (simp add: example_defs run_defs)
  have u: "usageReports (full_body five_messages) (example_env builder_up ''stop'')
       = [Some (UsageReport (Some 1) (Some 2) (Some 3)),
          Some (UsageReport (Some 10) None (Some 30))]"
    by (simp add: usageReports_def summaryReports_def generationReports_def
        summaryRequested_def example_env_def full_body_def)
  from usage_annotation_is_sum_of_reports [OF h1 h2 h3] h3 u show ?thesis by blast
qed

section \<open>A builder that fails\<close>

text \<open>
  Claim C5. Take a request with a builder URL whose builder call fails: \<open>fetch\<close> rejects,
  the response is not ok, or its body cannot be read. The response is still the stream;
  the error is logged; the first two records are the progress records of the builder,
  the second with the status \<open>in-progress\<close> and the error detail as message. The failure
  stops nothing after it: when the summary stage is skipped or \<open>createSummary\<close>
  returns, the text generator is called; and when moreover the generator finishes with
  a reason other than \<open>length\<close>, the usage annotation and the progress record
  \<open>response\<close>, \<open>complete\<close> are the last records the endpoint writes (only merged parts
  of the generator can follow).
\<close>

theorem builder_failure_degrades:
  assumes "builderAction rq ev = Returned r s"
      and "body rq = ParsedBody req"
      and "messages req = MessagesArray ms"
      and "builderConfigured req"
      and "builderResponse (fetchOutcome ev) = Inl e"
  shows "r = StreamResponse streamHeaders
       \<and> LogError ''Error calling builder server'' e \<in> set (logs s)
       \<and> (\<exists>rest.
            dataStream s =
              [Data \<lparr>label = ''builder'', status = ''in-progress'', order = 1,
                     message = ''Connecting to builder server''\<rparr>,
               Data \<lparr>label = ''builder'', status = ''in-progress'', order = 2,
                     message = ''Builder server error: '' @ errorMessage e\<rparr>] @ rest)
       \<and> (\<not> summaryRequested req ev \<or> (\<exists>rs t. summaryOutcome ev = SummaryOutcome rs (Inr t))
            \<longrightarrow> (\<exists>sm. StreamTextCall (streamTextArgs ms req sm) \<in> set (calls s)))
       \<and> ((\<not> summaryRequested req ev \<or> (\<exists>rs t. summaryOutcome ev = SummaryOutcome rs (Inr t)))
            \<and> genOutcome ev = StreamTextResult ps err (Some (FinishEvent reason u)) k
            \<and> reason \<noteq> ''length''
            \<longrightarrow> (\<exists>mid t n.
                  dataStream s =
                    [Data \<lparr>label = ''builder'', status = ''in-progress'', order = 1,
                           message = ''Connecting to builder server''\<rparr>,
                     Data \<lparr>label = ''builder'', status = ''in-progress'', order = 2,
                           message = ''Builder server error: '' @ errorMessage e\<rparr>] @
                    mid @
                    [MessageAnnotation (UsageAnnotation t),
                     Data \<lparr>label = ''response'', status = ''complete'', order = n,
                           message = ''Response Generated''\<rparr>] @
                    map Merged (drop k ps)))"
proof -
  let ?b = "builderStage ms req ev (startState ms)"
  let ?first = "[Data \<lparr>label = ''builder'', status = ''in-progress'', order = 1,
                       message = ''Connecting to builder server''\<rparr>,
                 Data \<lparr>label = ''builder'', status = ''in-progress'', order = 2,
                       message = ''Builder server error: '' @ errorMessage e\<rparr>]"
  let ?returns = "\<not> summaryRequested req ev
                    \<or> (\<exists>rs t. summaryOutcome ev = SummaryOutcome rs (Inr t))"
  from assms(1,2,3) have s: "s = execute ms req ev (startState ms)"
    and 1: "r = StreamResponse streamHeaders"
    by (rule builderAction_streamed)+
  have bd: "dataStream ?b = ?first"
    using builderStage_failed(1) [OF assms(4,5), of ms "startState ms"]
    by (simp add: numeral_2_eq_2)
  have bl: "LogError ''Error calling builder server'' e \<in> set (logs ?b)"
    using builderStage_failed(2) [OF assms(4,5), of ms "startState ms"] by simp
  obtain l where "logs s = logs ?b @ l"
    using execute_grows(2) [of ms req ev "startState ms"] s by auto
  with bl have 2: "LogError ''Error calling builder server'' e \<in> set (logs s)"
    by simp
  obtain rest where "dataStream s = dataStream ?b @ rest"
    using execute_grows(1) [of ms req ev "startState ms"] s by auto
  with bd have 3: "\<exists>rest. dataStream s = ?first @ rest"
    by simp
  have 4: "\<exists>sm. StreamTextCall (streamTextArgs ms req sm) \<in> set (calls s)"
    if ret: ?returns
  proof -
    obtain sm s1 where sum: "summaryStage ms req ev ?b = Inr (sm, s1)"
      using summaryStage_returns [OF ret] by blast
    show ?thesis
    proof (cases "generationStage ms req ev sm s1")
      case (Inl a)
      obtain x s2 where a: "a = (x, s2)" by (cases a)
      with Inl sum s have "calls s = calls s2"
        by (simp add: execute_def)
      moreover have "calls s2 = calls s1 @ [StreamTextCall (streamTextArgs ms req sm)]"
        using generationStage_calls [of ms req ev sm s1 x s2] Inl a by simp
      ultimately show ?thesis by auto
    next
      case (Inr s2)
      with sum s have "calls s = calls s2"
        by (simp add: execute_def)
      moreover have "calls s2 = calls s1 @ [StreamTextCall (streamTextArgs ms req sm)]"
        using generationStage_calls [of ms req ev sm s1 _ s2] Inr by simp
      ultimately show ?thesis by auto
    qed
  qed
  have 5: "\<exists>mid t n.
             dataStream s =
               ?first @ mid @
               [MessageAnnotation (UsageAnnotation t),
                Data \<lparr>label = ''response'', status = ''complete'', order = n,
                      message = ''Response Generated''\<rparr>] @
               map Merged (drop k ps)"
    if ret: ?returns
      and gen: "genOutcome ev = StreamTextResult ps err (Some (FinishEvent reason u)) k"
      and fin: "reason \<noteq> ''length''"
  proof -
    obtain sm s1 where sum: "summaryStage ms req ev ?b = Inr (sm, s1)"
      using summaryStage_returns [OF ret] by blast
    obtain out where s1: "dataStream s1 = dataStream ?b @ out"
      using summaryStage_grows(1) [of ms req ev ?b _ s1 sm] sum by auto
    obtain s2 where g: "generationStage ms req ev sm s1 = Inr s2"
      and s2: "dataStream s2 =
          dataStream s1 @
          Data \<lparr>label = ''response'', status = ''in-progress'', order = progressCounter s1,
                message = ''Generating Response''\<rparr> #
          map Merged (take k ps) @
          [MessageAnnotation (UsageAnnotation (addReport u (cumulativeUsage s1))),
           Data \<lparr>label = ''response'', status = ''complete'',
                 order = Suc (progressCounter s1), message = ''Response Generated''\<rparr>] @
          map Merged (drop k ps)"
      using generationStage_finished [OF gen fin, of ms req sm s1] by blast
    from sum g s have "s = s2"
      by (simp add: execute_def)
    with s2 s1 bd have "dataStream s =
          ?first @
          (out @ Data \<lparr>label = ''response'', status = ''in-progress'',
                       order = progressCounter s1, message = ''Generating Response''\<rparr> #
             map Merged (take k ps)) @
          [MessageAnnotation (UsageAnnotation (addReport u (cumulativeUsage s1))),
           Data \<lparr>label = ''response'', status = ''complete'',
                 order = Suc (progressCounter s1), message = ''Response Generated''\<rparr>] @
          map Merged (drop k ps)"
      by simp
    then show ?thesis by blast
  qed
  from 1 2 3 4 5 show ?thesis by blast
qed

theorem builder_failure_degrades_witness:
  "builderResponse (fetchOutcome (example_env builder_down ''stop''))
     = Inl (ErrorObj ''Builder server returned status 503'')
   \<and> LogError ''Error calling builder server'' (ErrorObj ''Builder server returned status 503'')
       \<in> set (logs (execute five_messages (full_body five_messages)
                      (example_env builder_down ''stop'') (startState five_messages)))
   \<and> (\<exists>sm. StreamTextCall (streamTextArgs five_messages (full_body five_messages) sm)
          \<in> set (calls (execute five_messages (full_body five_messages)
                      (example_env builder_down ''stop'') (startState five_messages))))
   \<and> (\<exists>mid t n.
         dataStream (execute five_messages (full_body five_messages)
                      (example_env builder_down ''stop'') (startState five_messages)) =
           [Data \<lparr>label = ''builder'', status = ''in-progress'', order = 1,
                  message = ''Connecting to builder server''\<rparr>,
            Data \<lparr>label = ''builder'', status = ''in-progress'', order = 2,
                  message = ''Builder server error: Builder server returned status 503''\<rparr>] @
           mid @
           [MessageAnnotation (UsageAnnotation t),
            Data \<lparr>label = ''response'', status = ''complete'', order = n,
                  message = ''Response Generated''\<rparr>] @
           map Merged (drop 2 [\<lparr>part_text = None, textDelta = Some ''Hi''\<rparr>,
                               \<lparr>part_text = None, textDelta = None\<rparr>]))"
proof -
  let ?ev = "example_env builder_down ''stop''"
  let ?s = "execute five_messages (full_body five_messages) ?ev (startState five_messages)"
  let ?ps = "[\<lparr>part_text = None, textDelta = Some ''Hi''\<rparr>, \<lparr>part_text = None, textDelta = None\<rparr>]"
  have h1: "builderAction (example_request (full_body five_messages)) ?ev
              = Returned (StreamResponse streamHeaders) ?s"
    by (rule builderAction_example)
  have h2: "body (example_request (full_body five_messages)) = ParsedBody (full_body five_messages)"
    by (simp add: example_request_def)
  have h3: "messages (full_body five_messages) = MessagesArray five_messages"
    by (simp add: full_body_def)
  have h4: "builderConfigured (full_body five_messages)"
    by (simp add: builderConfigured_def full_body_def)
  have h5: "builderResponse (fetchOutcome ?ev) = Inl (ErrorObj ''Builder server returned status 503'')"
    by (simp add: example_env_def builder_down_def decimal.simps)
  have h6: "\<not> summaryRequested (full_body five_messages) ?ev
          \<or> (\<exists>rs t. summaryOutcome ?ev = SummaryOutcome rs (Inr t))"
    by (simp add: example_env_def)
  have h7: "genOutcome ?ev =
      StreamTextResult ?ps None
        (Some (FinishEvent ''stop'' (Some (UsageReport (Some 10) None (Some 30))))) 2"
    by (simp add: example_env_def)
  have h8: "''stop'' \<noteq> ''length''"
    by simp
  note t = builder_failure_degrades [OF h1 h2 h3 h4 h5,
      of ?ps None "''stop''" "Some (UsageReport (Some 10) None (Some 30))" 2]
  from t have "LogError ''Error calling builder server''
                 (ErrorObj ''Builder server returned status 503'') \<in> set (logs ?s)"
    by blast
  moreover from t h6
  have "\<exists>sm. StreamTextCall (streamTextArgs five_messages (full_body five_messages) sm)
          \<in> set (calls ?s)"
    by blast
  moreover from t h6 h7 h8
  have "\<exists>mid t n.
         dataStream ?s =
           [Data \<lparr>label = ''builder'', status = ''in-progress'', order = 1,
                  message = ''Connecting to builder server''\<rparr>,
            Data \<lparr>label = ''builder'', status = ''in-progress'', order = 2,
                  message = ''Builder server error: '' @
                            errorMessage (ErrorObj ''Builder server returned status 503'')\<rparr>] @
           mid @
           [MessageAnnotation (UsageAnnotation t),
            Data \<lparr>label = ''response'', status = ''complete'', order = n,
                  message = ''Response Generated''\<rparr>] @
           map Merged (drop 2 ?ps)"
    by blast
  ultimately show ?thesis using h5 by simp
qed

section \<open>A generation cut by the length limit\<close>

text \<open>
  Claim C3, on the input where the code departs from it. When the generator finishes
  with the reason \<open>length\<close>, \<open>onFinish\<close> adds the usage to the totals and logs the
  usage, and that is all: it writes no record and no annotation, it logs nothing about the
  finish reason, it makes no call and does not touch the stream. A whole request ending
  that way has the single progress record \<open>response\<close>, \<open>in-progress\<close>.
\<close>

theorem finish_reason_length_is_dropped:
  "dataStream (onFinish (FinishEvent ''length'' u) s) = dataStream s
   \<and> logs (onFinish (FinishEvent ''length'' u) s) = logs s @ [LogUsage ''usage'' u]
   \<and> calls (onFinish (FinishEvent ''length'' u) s) = calls s
   \<and> stream (onFinish (FinishEvent ''length'' u) s) = stream s
   \<and> progressCounter (onFinish (FinishEvent ''length'' u) s) = progressCounter s
   \<and> dataStream (execute [example_message ''m1''] (plain_body [example_message ''m1''])
        (example_env builder_up ''length'') (startState [example_message ''m1'']))
       = [Data \<lparr>label = ''response'', status = ''in-progress'', order = 1,
                 message = ''Generating Response''\<rparr>,
          Merged \<lparr>part_text = None, textDelta = Some ''Hi''\<rparr>,
          Merged \<lparr>part_text = None, textDelta = None\<rparr>]
   \<and> logs (execute [example_message ''m1''] (plain_body [example_message ''m1''])
        (example_env builder_up ''length'') (startState [example_message ''m1'']))
       = [LogTotalLength 3, LogUsage ''usage'' (Some (UsageReport (Some 10) None (Some 30)))]"
proof -
  let ?ms = "[example_message ''m1'']"
  let ?s = "execute ?ms (plain_body ?ms) (example_env builder_up ''length'') (startState ?ms)"
  have 1: "dataStream ?s
       = [Data \<lparr>label = ''response'', status = ''in-progress'', order = 1,
                 message = ''Generating Response''\<rparr>,
          Merged \<lparr>part_text = None, textDelta = Some ''Hi''\<rparr>,
          Merged \<lparr>part_text = None, textDelta = None\<rparr>]"
    by (simp add: example_defs run_defs)
  have 2: "logs ?s
       = [LogTotalLength 3, LogUsage ''usage'' (Some (UsageReport (Some 10) None (Some 30)))]"
    by (simp add: example_defs run_defs wordCount_def totalMessageContent_def)
  from 1 2 show ?thesis
    by (simp add: onFinish_fields)
qed

section \<open>A body that is not JSON\<close>

text \<open>
  Claim C8, on the input where the code departs from it. \<open>request.json()\<close> is awaited
  at line 61 and the cookies are parsed at lines 74 to 77, before the \<open>try\<close> of line 89:
  when the body is not JSON the endpoint rejects with the parser's error and returns no
  response of its own, whatever the collaborators are. The \<open>catch\<close> of line 321 answers
  with status 500 and \<open>{ error }\<close> only for what is thrown inside the \<open>try\<close>, such as
  \<open>messages\<close> not being an array; no stream is written in either case.
\<close>

theorem invalid_json_body_is_uncaught:
  "builderAction
     \<lparr>body = InvalidJson (ErrorObj ''Unexpected end of JSON input''),
      apiKeysCookie = Inr ''{}'', providersCookie = Inr ''{}''\<rparr> ev
     = Uncaught (ErrorObj ''Unexpected end of JSON input'')
   \<and> builderAction
       (example_request ((plain_body [])\<lparr>messages := NotAnArray ''messages.reduce is not a function''\<rparr>))
       ev
     = Returned
         (JsonResponse 500 [(''Content-Type'', ''application/json'')]
            ''messages.reduce is not a function'')
         (logger (LogError ''Error in builder endpoint''
                    (ErrorObj ''messages.reduce is not a function'')) initial_state)"
  by (simp add: builderAction_def example_request_def plain_body_def)

end
